theory Spec2Isabelle
  imports Main "HOL-Library.Sublist" "HOL-Library.Word"
begin

section \<open>Constants of the driver\<close>

text \<open>
  The LARA-R6 driver talks to the modem over one serial byte stream. Bytes are C
  \<open>char\<close>s, strings are NUL-terminated character arrays. In this development a C string
  is the list of its characters before the terminating NUL.
\<close>

type_synonym u32 = "32 word"

definition NUL :: char where "NUL = CHR 0x00"
definition CR :: char where "CR = CHR 0x0D"
definition LF :: char where "LF = CHR 0x0A"

definition CRLF :: string where "CRLF = [CR, LF]"

text \<open>\<open>#define _RXBuffSize 2056\<close>, \<open>_rxWindowMillis = 2\<close>, \<open>#define LARA_R6_NUM_SOCKETS 6\<close>.\<close>

definition RXBuffSize :: nat where "RXBuffSize = 2056"
definition rxWindowMillis :: u32 where "rxWindowMillis = 2"
definition LARA_R6_NUM_SOCKETS :: int where "LARA_R6_NUM_SOCKETS = 6"

definition LARA_R6_COMMAND_AT :: string where "LARA_R6_COMMAND_AT = ''AT''"

definition LARA_R6_READ_SOCKET_URC :: string where "LARA_R6_READ_SOCKET_URC = ''+UUSORD:''"
definition LARA_R6_READ_UDP_SOCKET_URC :: string where "LARA_R6_READ_UDP_SOCKET_URC = ''+UUSORF:''"
definition LARA_R6_LISTEN_SOCKET_URC :: string where "LARA_R6_LISTEN_SOCKET_URC = ''+UUSOLI:''"
definition LARA_R6_CLOSE_SOCKET_URC :: string where "LARA_R6_CLOSE_SOCKET_URC = ''+UUSOCL:''"
definition LARA_R6_GNSS_REQUEST_LOCATION_URC :: string where "LARA_R6_GNSS_REQUEST_LOCATION_URC = ''+UULOC:''"
definition LARA_R6_SIM_STATE_URC :: string where "LARA_R6_SIM_STATE_URC = ''+UUSIMSTAT:''"
definition LARA_R6_HTTP_COMMAND_URC :: string where "LARA_R6_HTTP_COMMAND_URC = ''+UUHTTPCR:''"
definition LARA_R6_MQTT_COMMAND_URC :: string where "LARA_R6_MQTT_COMMAND_URC = ''+UUMQTTC:''"
definition LARA_R6_PING_COMMAND_URC :: string where "LARA_R6_PING_COMMAND_URC = ''+UUPING:''"
definition LARA_R6_REGISTRATION_STATUS_URC :: string where "LARA_R6_REGISTRATION_STATUS_URC = ''+CREG:''"
definition LARA_R6_EPSREGISTRATION_STATUS_URC :: string where "LARA_R6_EPSREGISTRATION_STATUS_URC = ''+CEREG:''"
definition LARA_R6_FTP_COMMAND_URC :: string where "LARA_R6_FTP_COMMAND_URC = ''+UUFTPCR:''"

definition LARA_R6_RESPONSE_MORE :: string where "LARA_R6_RESPONSE_MORE = [LF, CHR ''>'']"
definition LARA_R6_RESPONSE_OK :: string where "LARA_R6_RESPONSE_OK = [LF] @ ''OK'' @ [CR, LF]"
definition LARA_R6_RESPONSE_ERROR :: string where "LARA_R6_RESPONSE_ERROR = [LF] @ ''ERROR'' @ [CR, LF]"

definition LARA_R6_TCP :: int where "LARA_R6_TCP = 6"
definition LARA_R6_UDP :: int where "LARA_R6_UDP = 17"

datatype LARA_R6_error_t =
    LARA_R6_ERROR_INVALID
  | LARA_R6_ERROR_SUCCESS
  | LARA_R6_ERROR_OUT_OF_MEMORY
  | LARA_R6_ERROR_TIMEOUT
  | LARA_R6_ERROR_UNEXPECTED_PARAM
  | LARA_R6_ERROR_UNEXPECTED_RESPONSE
  | LARA_R6_ERROR_NO_RESPONSE
  | LARA_R6_ERROR_DEREGISTERED
  | LARA_R6_ERROR_ZERO_READ_LENGTH
  | LARA_R6_ERROR_ERROR

section \<open>C string library functions used by the driver\<close>

text \<open>A character array read as a C string ends at its first NUL.\<close>

definition c_str :: "string \<Rightarrow> string" where
  "c_str buf = takeWhile (\<lambda>c. c \<noteq> NUL) buf"

text \<open>
  \<open>strstr(hay, needle)\<close>: the suffix of \<open>hay\<close> that starts at the first occurrence of
  \<open>needle\<close>, or \<open>None\<close> for the null pointer.
\<close>

fun strstr :: "string \<Rightarrow> string \<Rightarrow> string option" where
  "strstr [] needle = (if needle = [] then Some [] else None)"
| "strstr (h # hs) needle =
     (if prefix needle (h # hs) then Some (h # hs) else strstr hs needle)"

text \<open>The delimiter set \<open>"\r\n"\<close> handed to \<open>strtok_r\<close>: a CR or an LF, each on its own.\<close>

definition is_delim :: "char \<Rightarrow> bool" where
  "is_delim c \<longleftrightarrow> c = CR \<or> c = LF"

text \<open>
  \<open>strtok_r(str, "\r\n", &save)\<close> on the string \<open>str\<close>: leading delimiters are skipped;
  at the end of the string the result is the null pointer (\<open>None\<close>); otherwise the token
  is the longest run of non-delimiters, the delimiter that ends it (if any) is
  overwritten with NUL, and \<open>save\<close> is left on the string after it.
\<close>

definition strtok_r :: "string \<Rightarrow> (string \<times> string) option" where
  "strtok_r str =
     (let s1 = dropWhile is_delim str in
      if s1 = [] then None
      else Some (takeWhile (\<lambda>c. \<not> is_delim c) s1,
                 drop 1 (dropWhile (\<lambda>c. \<not> is_delim c) s1)))"

section \<open>Buffers of fixed size\<close>

text \<open>
  The buffers \<open>_laraRXBuffer\<close>, \<open>_pruneBuffer\<close> and \<open>_laraResponseBacklog\<close> are arrays of
  \<open>_RXBuffSize\<close> bytes, and the code reads and writes them with string functions that
  check no bound. An access that leaves an array is a result of its own here:

  \<^item> \<open>Unterminated\<close>: a string function reads an array of \<open>_RXBuffSize\<close> bytes none of
    which is NUL, and runs past its end;
  \<^item> \<open>Overrun n\<close>: a string of \<open>n\<close> characters (and its NUL) is written into an array that
    has no room for it, or \<open>n\<close> bytes are copied into an array that is smaller;
  \<^item> \<open>OutsideSocketTable i\<close>: \<open>_lastSocketProtocol\<close> is read at index \<open>i\<close>, outside its
    \<open>LARA_R6_NUM_SOCKETS\<close> elements;
  \<^item> \<open>NullPointer\<close>: the null pointer that \<open>strchr\<close> returned is dereferenced.
\<close>

datatype fault = Unterminated | Overrun nat | OutsideSocketTable int | NullPointer

text \<open>
  An array of \<open>_RXBuffSize\<close> bytes that holds the bytes \<open>buf\<close> from its start and zeros
  after them, read as a C string.
\<close>

definition buffer_str :: "string \<Rightarrow> fault + string" where
  "buffer_str buf =
     (if length (c_str buf) < RXBuffSize then Inr (c_str buf) else Inl Unterminated)"

text \<open>\<open>strcat(dest, src)\<close> on an array \<open>dest\<close> of \<open>room\<close> bytes.\<close>

definition strcat :: "nat \<Rightarrow> string \<Rightarrow> string \<Rightarrow> fault + string" where
  "strcat room dest src =
     (if length dest + length src < room then Inr (dest @ src)
      else Inl (Overrun (length dest + length src)))"

section \<open>What the application does with the driver\<close>

text \<open>
  The callbacks of the application run inside \<open>processURCEvent\<close>, and so do the parse
  functions of the driver that read a socket. What such code does to the driver is to
  call its functions. It is a program here: it returns, or it calls \<open>bufferedPoll\<close> and
  goes on with the result, or it sends a command with
  \<open>sendCustomCommandWithResponse(command, expectedResponse, responseDest, commandTimeout, at)\<close>
  and goes on with the result and the response.
\<close>

datatype prog =
    Return
  | BufferedPoll "bool \<Rightarrow> prog"
  | SendCustomCommandWithResponse string "string option" u32 bool
      "LARA_R6_error_t \<Rightarrow> string \<Rightarrow> prog"

text \<open>A value that \<open>sscanf\<close> has converted: a number, or the characters of a scanset.\<close>

datatype scanned = Number int | Text string

text \<open>The callback pointers of \<open>class LARA_R6\<close> that \<open>processURCEvent\<close> and its parse functions use.\<close>

datatype callback =
    SocketListenCallback
  | SocketReadCallback
  | SocketReadCallbackPlus
  | SocketCloseCallback
  | GpsRequestCallback
  | SimStateReportCallback
  | PingRequestCallback
  | HttpCommandRequestCallback
  | MqttCommandRequestCallback
  | FtpCommandRequestCallback
  | RegistrationCallback
  | EpsRegistrationCallback

section \<open>The session state\<close>

text \<open>
  The fields of \<open>class LARA_R6\<close> that the engine reads and writes.
  \<open>laraResponseBacklog\<close> holds the bytes of the buffer \<open>_laraResponseBacklog\<close> before
  its zero fill: every path of the driver clears the buffer with \<open>memset\<close> before it
  rewrites it and stores no NUL in it, so the buffer is these bytes followed by zeros.
  \<open>laraResponseBacklogLength\<close> is the separate counter the code keeps. \<open>callbacks\<close> gives
  for every callback pointer the program registered there, from the values it is called
  with, or \<open>None\<close> for the null pointer.
\<close>

record lara =
  laraResponseBacklog :: string
  laraResponseBacklogLength :: nat
  bufferedPollReentrant :: bool
  lastSocketProtocol :: "int list"
  lastLocalIP :: "int list"
  lastRemoteIP :: "int list"
  callbacks :: "callback \<Rightarrow> (scanned list \<Rightarrow> prog) option"

section \<open>pruneBacklog\<close>

text \<open>A pointer returned by \<open>strstr\<close> is compared with \<open>nullptr\<close>.\<close>

definition not_null :: "'a option \<Rightarrow> bool" where
  "not_null p = (case p of None \<Rightarrow> False | Some _ \<Rightarrow> True)"

text \<open>The test of \<open>pruneBacklog\<close>: one of the twelve URC tags occurs somewhere in the event.\<close>

definition actionable :: "string \<Rightarrow> bool" where
  "actionable event \<longleftrightarrow>
        not_null (strstr event LARA_R6_READ_SOCKET_URC)
      \<or> not_null (strstr event LARA_R6_READ_UDP_SOCKET_URC)
      \<or> not_null (strstr event LARA_R6_LISTEN_SOCKET_URC)
      \<or> not_null (strstr event LARA_R6_CLOSE_SOCKET_URC)
      \<or> not_null (strstr event LARA_R6_GNSS_REQUEST_LOCATION_URC)
      \<or> not_null (strstr event LARA_R6_SIM_STATE_URC)
      \<or> not_null (strstr event LARA_R6_HTTP_COMMAND_URC)
      \<or> not_null (strstr event LARA_R6_MQTT_COMMAND_URC)
      \<or> not_null (strstr event LARA_R6_PING_COMMAND_URC)
      \<or> not_null (strstr event LARA_R6_REGISTRATION_STATUS_URC)
      \<or> not_null (strstr event LARA_R6_EPSREGISTRATION_STATUS_URC)
      \<or> not_null (strstr event LARA_R6_FTP_COMMAND_URC)"

text \<open>
  The \<open>while (event != nullptr)\<close> loop of \<open>pruneBacklog\<close>. \<open>pb\<close> is the string in
  \<open>_pruneBuffer\<close>, \<open>len\<close> the running \<open>_laraResponseBacklogLength\<close>. The two calls of
  \<open>strcat\<close> write into \<open>_pruneBuffer\<close>, an array of \<open>_RXBuffSize\<close> bytes.
\<close>

function prune_loop :: "string \<Rightarrow> string \<Rightarrow> nat \<Rightarrow> fault + string \<times> nat" where
  "prune_loop str pb len =
     (case strtok_r str of
        None \<Rightarrow> Inr (pb, len)
      | Some (event, rest) \<Rightarrow>
          if actionable event
          then (case strcat RXBuffSize pb event of
                  Inl f \<Rightarrow> Inl f
                | Inr pb1 \<Rightarrow>
                    (case strcat RXBuffSize pb1 CRLF of
                       Inl f \<Rightarrow> Inl f
                     | Inr pb2 \<Rightarrow> prune_loop rest pb2 (len + (length event + 2))))
          else prune_loop rest pb len)"
  by pat_completeness auto
termination
proof (relation "measure (\<lambda>(str, pb, len). length str)")
  have shorter: "length rest < length str" if "strtok_r str = Some (event, rest)"
    for str event rest
  proof -
    let ?s1 = "dropWhile is_delim str"
    from that have ne: "?s1 \<noteq> []"
      and r: "rest = drop 1 (dropWhile (\<lambda>c. \<not> is_delim c) ?s1)"
      by (auto simp: strtok_r_def Let_def split: if_splits)
    from ne have "\<not> is_delim (hd ?s1)"
      using hd_dropWhile by blast
    with ne have "length (dropWhile (\<lambda>c. \<not> is_delim c) ?s1) < length ?s1"
      by (cases ?s1) (auto simp: less_Suc_eq_le length_dropWhile_le)
    moreover have "length ?s1 \<le> length str"
      by (rule length_dropWhile_le)
    ultimately show ?thesis using r by simp
  qed
  show "wf (measure (\<lambda>(str, pb, len). length str))" by simp
  show "((rest, pb2, len + (length event + 2)), str, pb, len)
          \<in> measure (\<lambda>(str, pb, len). length str)"
    if "strtok_r str = Some x2" "(event, rest) = x2" for str pb len x2 event rest pb2
    using that shorter [of str event rest] by simp
  show "((rest, pb, len), str, pb, len) \<in> measure (\<lambda>(str, pb, len). length str)"
    if "strtok_r str = Some x2" "(event, rest) = x2" for str pb len x2 event rest
    using that shorter [of str event rest] by simp
qed

declare prune_loop.simps [simp del]

text \<open>
  \<open>pruneBacklog\<close>: clear \<open>_pruneBuffer\<close>, zero the length, run the loop over the backlog
  read as a C string by \<open>strtok_r\<close>, then clear the backlog and \<open>memcpy\<close> the first
  \<open>_laraResponseBacklogLength\<close> bytes of \<open>_pruneBuffer\<close> back.
\<close>

definition pruneBacklog :: "lara \<Rightarrow> fault + lara" where
  "pruneBacklog s =
     (case buffer_str (laraResponseBacklog s) of
        Inl f \<Rightarrow> Inl f
      | Inr str \<Rightarrow>
          (case prune_loop str [] 0 of
             Inl f \<Rightarrow> Inl f
           | Inr (pb, len) \<Rightarrow>
               Inr (s\<lparr>laraResponseBacklog := take len pb, laraResponseBacklogLength := len\<rparr>)))"

section \<open>The serial port and the millisecond clock\<close>

text \<open>
  What the driver sees of its environment, as a script. \<open>clock\<close> lists the values
  that the successive calls of \<open>millis()\<close> return (an \<open>unsigned long\<close> of 32 bits).
  \<open>rx\<close> lists what the successive polls of the receive line find: \<open>Some c\<close> is a
  byte waiting to be read, \<open>None\<close> a poll that finds nothing. \<open>tx\<close> collects the bytes
  written, and \<open>wire\<close> the bytes read and the bytes written, in the order in which the
  driver read and wrote them. A run that needs a clock value after the script has ended
  has the value \<open>None\<close>.
\<close>

datatype wire_event = Rx char | Tx char

record hw =
  clock :: "u32 list"
  rx :: "char option list"
  tx :: string
  wire :: "wire_event list"

definition millis :: "hw \<Rightarrow> (u32 \<times> hw) option" where
  "millis h = (case clock h of [] \<Rightarrow> None | t # ts \<Rightarrow> Some (t, h\<lparr>clock := ts\<rparr>))"

text \<open>\<open>hwAvailable() > 0\<close>. A waiting byte stays until it is read.\<close>

definition hwAvailable :: "hw \<Rightarrow> bool \<times> hw" where
  "hwAvailable h =
     (case rx h of
        [] \<Rightarrow> (False, h)
      | None # r \<Rightarrow> (False, h\<lparr>rx := r\<rparr>)
      | Some c # r \<Rightarrow> (True, h))"

text \<open>\<open>readChar()\<close>; \<open>Serial.read()\<close> on an empty line returns -1, the character 0xFF.\<close>

definition readChar :: "hw \<Rightarrow> char \<times> hw" where
  "readChar h =
     (case rx h of
        Some c # r \<Rightarrow> (c, h\<lparr>rx := r, wire := wire h @ [Rx c]\<rparr>)
      | None # r \<Rightarrow> (CHR 0xFF, h\<lparr>rx := r\<rparr>)
      | [] \<Rightarrow> (CHR 0xFF, h))"

definition hwPrint :: "string \<Rightarrow> hw \<Rightarrow> hw" where
  "hwPrint str h = h\<lparr>tx := tx h @ str, wire := wire h @ map Tx str\<rparr>"

section \<open>waitForResponse\<close>

text \<open>The locals \<open>found\<close>, \<open>error\<close>, \<open>responseIndex\<close>, \<open>errorIndex\<close> of the two wait loops.\<close>

record wait_vars =
  found :: bool
  error :: bool
  responseIndex :: nat
  errorIndex :: nat

definition wait_init :: wait_vars where
  "wait_init = \<lparr>found = False, error = False, responseIndex = 0, errorIndex = 0\<rparr>"

text \<open>The two \<open>if\<close>/\<open>else\<close> statements that advance \<open>responseIndex\<close> and \<open>errorIndex\<close>.\<close>

definition match_response ::
  "string \<Rightarrow> char \<Rightarrow> 'a wait_vars_scheme \<Rightarrow> 'a wait_vars_scheme" where
  "match_response expectedResponse c v =
     (if responseIndex v < length expectedResponse \<and> c = expectedResponse ! responseIndex v
      then (if responseIndex v + 1 = length expectedResponse
            then v\<lparr>responseIndex := responseIndex v + 1, found := True\<rparr>
            else v\<lparr>responseIndex := responseIndex v + 1\<rparr>)
      else v\<lparr>responseIndex :=
               (if responseIndex v < length expectedResponse \<and> c = expectedResponse ! 0
                then 1 else 0)\<rparr>)"

definition match_error ::
  "string \<Rightarrow> char \<Rightarrow> 'a wait_vars_scheme \<Rightarrow> 'a wait_vars_scheme" where
  "match_error expectedError c v =
     (if errorIndex v < length expectedError \<and> c = expectedError ! errorIndex v
      then (if errorIndex v + 1 = length expectedError
            then v\<lparr>errorIndex := errorIndex v + 1, error := True, found := True\<rparr>
            else v\<lparr>errorIndex := errorIndex v + 1\<rparr>)
      else v\<lparr>errorIndex :=
               (if errorIndex v < length expectedError \<and> c = expectedError ! 0
                then 1 else 0)\<rparr>)"

text \<open>
  The mirror of a byte into the backlog, guarded by \<open>_laraResponseBacklogLength < _RXBuffSize\<close>;
  a NUL is stored as the digit zero.
\<close>

definition backlog_put :: "char \<Rightarrow> lara \<Rightarrow> lara" where
  "backlog_put c s =
     (if laraResponseBacklogLength s < RXBuffSize
      then s\<lparr>laraResponseBacklog := laraResponseBacklog s @ [if c = NUL then CHR ''0'' else c],
              laraResponseBacklogLength := laraResponseBacklogLength s + 1\<rparr>
      else s)"

text \<open>
  The loop \<open>while ((!found) && ((timeIn + timeout) > millis()))\<close> of \<open>waitForResponse\<close>.
  The sum \<open>timeIn + timeout\<close> is an \<open>unsigned long\<close> and wraps at \<open>2^32\<close>.
\<close>

function wait_loop ::
  "string \<Rightarrow> string \<Rightarrow> u32 \<Rightarrow> u32 \<Rightarrow> wait_vars \<Rightarrow> hw \<Rightarrow> lara \<Rightarrow> (wait_vars \<times> hw \<times> lara) option"
where
  "wait_loop expectedResponse expectedError timeIn timeout v h s =
     (if found v then Some (v, h, s)
      else case millis h of
        None \<Rightarrow> None
      | Some (now, h1) \<Rightarrow>
          if now < timeIn + timeout
          then (case hwAvailable h1 of
                  (avail, h2) \<Rightarrow>
                    if avail
                    then (case readChar h2 of
                            (c, h3) \<Rightarrow>
                              wait_loop expectedResponse expectedError timeIn timeout
                                (match_error expectedError c (match_response expectedResponse c v))
                                h3 (backlog_put c s))
                    else wait_loop expectedResponse expectedError timeIn timeout v h2 s)
          else Some (v, h1, s))"
  by pat_completeness auto
termination
  by (relation "measure (\<lambda>(r, e, t, d, v, h, s). length (clock h))")
     (auto simp: millis_def hwAvailable_def readChar_def split: list.splits option.splits)

declare wait_loop.simps [simp del]

text \<open>
  \<open>waitForResponse\<close> ends with \<open>pruneBacklog()\<close> and the choice of its result. \<open>None\<close>: the
  clock script ended first. \<open>Inl\<close>: the pruner left one of its arrays.
\<close>

definition waitForResponse ::
  "string \<Rightarrow> string \<Rightarrow> 16 word \<Rightarrow> hw \<Rightarrow> lara
     \<Rightarrow> (fault + LARA_R6_error_t \<times> hw \<times> lara) option"
where
  "waitForResponse expectedResponse expectedError timeout h s =
     (case millis h of
        None \<Rightarrow> None
      | Some (timeIn, h1) \<Rightarrow>
          (case wait_loop expectedResponse expectedError timeIn (ucast timeout) wait_init h1 s of
             None \<Rightarrow> None
           | Some (v, h2, s2) \<Rightarrow>
               (case pruneBacklog s2 of
                  Inl f \<Rightarrow> Some (Inl f)
                | Inr s3 \<Rightarrow>
                    Some (Inr (if found v
                               then (if error v then LARA_R6_ERROR_ERROR
                                     else LARA_R6_ERROR_SUCCESS)
                               else LARA_R6_ERROR_NO_RESPONSE,
                               h2, s3)))))"

section \<open>sendCommand\<close>

text \<open>
  The drain loop of \<open>sendCommand\<close>:
  \<open>while (((millis() - timeIn) < _rxWindowMillis) && (_laraResponseBacklogLength < _RXBuffSize))\<close>.
\<close>

function drain_loop :: "u32 \<Rightarrow> hw \<Rightarrow> lara \<Rightarrow> (hw \<times> lara) option" where
  "drain_loop timeIn h s =
     (case millis h of
        None \<Rightarrow> None
      | Some (now, h1) \<Rightarrow>
          if now - timeIn < rxWindowMillis \<and> laraResponseBacklogLength s < RXBuffSize
          then (case hwAvailable h1 of
                  (avail, h2) \<Rightarrow>
                    if avail
                    then (case readChar h2 of
                            (c, h3) \<Rightarrow>
                              (case millis h3 of
                                 None \<Rightarrow> None
                               | Some (timeIn', h4) \<Rightarrow>
                                   drain_loop timeIn' h4
                                     (s\<lparr>laraResponseBacklog :=
                                          laraResponseBacklog s @ [if c = NUL then CHR ''0'' else c],
                                        laraResponseBacklogLength :=
                                          laraResponseBacklogLength s + 1\<rparr>)))
                    else drain_loop timeIn h2 s)
          else Some (h1, s))"
  by pat_completeness auto
termination
  by (relation "measure (\<lambda>(t, h, s). length (clock h))")
     (auto simp: millis_def hwAvailable_def readChar_def split: list.splits option.splits)

declare drain_loop.simps [simp del]

definition sendCommand :: "string \<Rightarrow> bool \<Rightarrow> hw \<Rightarrow> lara \<Rightarrow> (hw \<times> lara) option" where
  "sendCommand command at h s =
     (case millis h of
        None \<Rightarrow> None
      | Some (timeIn, h1) \<Rightarrow>
          (case hwAvailable h1 of
             (avail, h2) \<Rightarrow>
               (case (if avail then drain_loop timeIn h2 s else Some (h2, s)) of
                  None \<Rightarrow> None
                | Some (h3, s3) \<Rightarrow>
                    Some (if at
                          then hwPrint CRLF (hwPrint command (hwPrint LARA_R6_COMMAND_AT h3))
                          else hwPrint command h3,
                          s3))))"

section \<open>sendCommandWithResponse\<close>

text \<open>
  The further locals of \<open>sendCommandWithResponse\<close>: \<open>destIndex\<close>, \<open>charsRead\<close> (an
  \<open>unsigned int\<close>, taken as 32 bits wide) and the characters stored so far in the caller's
  buffer \<open>responseDest\<close>, from its first element on (\<open>None\<close> when the pointer is null).
\<close>

record cmd_vars = wait_vars +
  destIndex :: int
  charsRead :: u32
  responseDest :: "string option"

definition cmd_init :: "bool \<Rightarrow> cmd_vars" where
  "cmd_init hasDest =
     \<lparr>found = False, error = False, responseIndex = 0, errorIndex = 0,
      destIndex = 0, charsRead = 0, responseDest = (if hasDest then Some [] else None)\<rparr>"

definition capture :: "int \<Rightarrow> char \<Rightarrow> cmd_vars \<Rightarrow> cmd_vars" where
  "capture destSize c v =
     (case responseDest v of
        None \<Rightarrow> v
      | Some d \<Rightarrow>
          (if destIndex v < destSize then v\<lparr>responseDest := Some (d @ [c])\<rparr> else v)
            \<lparr>destIndex := destIndex v + 1\<rparr>)"

definition cmd_body :: "string \<Rightarrow> string \<Rightarrow> int \<Rightarrow> char \<Rightarrow> cmd_vars \<Rightarrow> cmd_vars" where
  "cmd_body expectedResponse expectedError destSize c v =
     (let v1 = capture destSize c v;
          v2 = v1\<lparr>charsRead := charsRead v1 + 1\<rparr>;
          v3 = match_error expectedError c v2
      in match_response expectedResponse c v3)"

function cmd_loop ::
  "string \<Rightarrow> string \<Rightarrow> u32 \<Rightarrow> u32 \<Rightarrow> int \<Rightarrow> cmd_vars \<Rightarrow> hw \<Rightarrow> lara \<Rightarrow> (cmd_vars \<times> hw \<times> lara) option"
where
  "cmd_loop expectedResponse expectedError timeIn commandTimeout destSize v h s =
     (if found v then Some (v, h, s)
      else case millis h of
        None \<Rightarrow> None
      | Some (now, h1) \<Rightarrow>
          if now < timeIn + commandTimeout
          then (case hwAvailable h1 of
                  (avail, h2) \<Rightarrow>
                    if avail
                    then (case readChar h2 of
                            (c, h3) \<Rightarrow>
                              cmd_loop expectedResponse expectedError timeIn commandTimeout destSize
                                (cmd_body expectedResponse expectedError destSize c v)
                                h3 (backlog_put c s))
                    else cmd_loop expectedResponse expectedError timeIn commandTimeout destSize v h2 s)
          else Some (v, h1, s))"
  by pat_completeness auto
termination
  by (relation "measure (\<lambda>(r, e, t, d, n, v, h, s). length (clock h))")
     (auto simp: millis_def hwAvailable_def readChar_def split: list.splits option.splits)

declare cmd_loop.simps [simp del]

text \<open>
  \<open>expectedResponse\<close> is \<open>None\<close> for \<open>LARA_R6_RESPONSE_OK_OR_ERROR\<close> (the null pointer):
  then the loop looks for \<open>LARA_R6_RESPONSE_OK\<close> and \<open>LARA_R6_RESPONSE_ERROR\<close>. Otherwise
  \<open>errorLen\<close> stays 0 and no error string is read. The result carries the characters
  stored in \<open>responseDest\<close>.
\<close>

definition sendCommandWithResponse ::
  "string \<Rightarrow> string option \<Rightarrow> bool \<Rightarrow> u32 \<Rightarrow> int \<Rightarrow> bool \<Rightarrow> hw \<Rightarrow> lara
     \<Rightarrow> (fault + LARA_R6_error_t \<times> string option \<times> hw \<times> lara) option"
where
  "sendCommandWithResponse command expectedResponse hasDest commandTimeout destSize at h s =
     (case sendCommand command at h s of
        None \<Rightarrow> None
      | Some (h1, s1) \<Rightarrow>
          (case millis h1 of
             None \<Rightarrow> None
           | Some (timeIn, h2) \<Rightarrow>
               (case cmd_loop
                       (case expectedResponse of None \<Rightarrow> LARA_R6_RESPONSE_OK | Some r \<Rightarrow> r)
                       (case expectedResponse of None \<Rightarrow> LARA_R6_RESPONSE_ERROR | Some r \<Rightarrow> [])
                       timeIn commandTimeout destSize (cmd_init hasDest) h2 s1 of
                  None \<Rightarrow> None
                | Some (v, h3, s3) \<Rightarrow>
                    (case pruneBacklog s3 of
                       Inl f \<Rightarrow> Some (Inl f)
                     | Inr s4 \<Rightarrow>
                         Some (Inr (if found v
                                    then (if error v then LARA_R6_ERROR_ERROR
                                          else LARA_R6_ERROR_SUCCESS)
                                    else if charsRead v = 0 then LARA_R6_ERROR_NO_RESPONSE
                                    else LARA_R6_ERROR_UNEXPECTED_RESPONSE,
                                    responseDest v, h3, s4))))))"

section \<open>bufferedPoll\<close>

text \<open>
  The read loop of \<open>bufferedPoll\<close>:
  \<open>while (((millis() - timeIn) < _rxWindowMillis) && (avail < _RXBuffSize))\<close>.
  \<open>buf\<close> is \<open>_laraRXBuffer[0..avail)\<close>.
\<close>

function poll_read_loop :: "u32 \<Rightarrow> string \<Rightarrow> hw \<Rightarrow> (string \<times> hw) option" where
  "poll_read_loop timeIn buf h =
     (case millis h of
        None \<Rightarrow> None
      | Some (now, h1) \<Rightarrow>
          if now - timeIn < rxWindowMillis \<and> length buf < RXBuffSize
          then (case hwAvailable h1 of
                  (avail, h2) \<Rightarrow>
                    if avail
                    then (case readChar h2 of
                            (c, h3) \<Rightarrow>
                              (case millis h3 of
                                 None \<Rightarrow> None
                               | Some (timeIn', h4) \<Rightarrow>
                                   poll_read_loop timeIn'
                                     (buf @ [if c = NUL then CHR ''0'' else c]) h4))
                    else poll_read_loop timeIn buf h2)
          else Some (buf, h1))"
  by pat_completeness auto
termination
  by (relation "measure (\<lambda>(t, b, h). length (clock h))")
     (auto simp: millis_def hwAvailable_def readChar_def split: list.splits option.splits)

declare poll_read_loop.simps [simp del]

text \<open>
  The loop \<open>while (event != nullptr)\<close> of \<open>bufferedPoll\<close>, for a given
  \<open>processURCEvent\<close>: from the event, the port and the session to its result, what it
  called, and what it leaves of the port and the session. \<open>str\<close> is the string that
  \<open>strtok_r\<close> has still to read in \<open>_laraRXBuffer\<close>, which ends at \<open>avail\<close>; what the
  decoder has left in the backlog is copied there when it fits. Besides \<open>handled\<close>, the
  result lists the events handed to \<open>processURCEvent\<close>, in order, each with what
  \<open>processURCEvent\<close> called for it.
\<close>

function poll_events ::
  "(string \<Rightarrow> hw \<Rightarrow> lara \<Rightarrow> (fault + bool \<times> 'c \<times> hw \<times> lara) option)
     \<Rightarrow> string \<Rightarrow> nat \<Rightarrow> bool \<Rightarrow> hw \<Rightarrow> lara
     \<Rightarrow> (fault + bool \<times> (string \<times> 'c) list \<times> hw \<times> lara) option"
where
  "poll_events processURCEvent str avail handled h s =
     (case strtok_r str of
        None \<Rightarrow> Some (Inr (handled, [], h, s))
      | Some (event, rest) \<Rightarrow>
          (case processURCEvent event h s of
             None \<Rightarrow> None
           | Some (Inl f) \<Rightarrow> Some (Inl f)
           | Some (Inr (latestHandled, called, h1, s1)) \<Rightarrow>
               (case (if laraResponseBacklogLength s1 > 0
                         \<and> avail + laraResponseBacklogLength s1 < RXBuffSize
                      then poll_events processURCEvent
                             (rest @ c_str (take (laraResponseBacklogLength s1) (laraResponseBacklog s1)))
                             (avail + laraResponseBacklogLength s1)
                             (handled \<or> latestHandled) h1
                             (s1\<lparr>laraResponseBacklog := [], laraResponseBacklogLength := 0\<rparr>)
                      else poll_events processURCEvent rest avail (handled \<or> latestHandled) h1 s1) of
                  None \<Rightarrow> None
                | Some (Inl f) \<Rightarrow> Some (Inl f)
                | Some (Inr (handled', events, h', s')) \<Rightarrow>
                    Some (Inr (handled', (event, called) # events, h', s')))))"
  by pat_completeness auto
termination
proof (relation
    "measure (\<lambda>(p, str, avail, handled, h, s). 2 * (RXBuffSize - avail) + length str)",
    goal_cases)
  case 1
  show ?case by simp
next
  case (2 p str avail handled h s x2 event rest x2a x2b latestHandled x2c called x2d h1 s1)
  let ?s1 = "dropWhile is_delim str"
  from 2 have tok: "strtok_r str = Some (event, rest)" by simp
  then have ne: "?s1 \<noteq> []"
    and r: "rest = drop 1 (dropWhile (\<lambda>c. \<not> is_delim c) ?s1)"
    by (auto simp: strtok_r_def Let_def split: if_splits)
  from ne have "\<not> is_delim (hd ?s1)"
    using hd_dropWhile by blast
  with ne have "length (dropWhile (\<lambda>c. \<not> is_delim c) ?s1) < length ?s1"
    by (cases ?s1) (auto simp: less_Suc_eq_le length_dropWhile_le)
  moreover have "length ?s1 \<le> length str"
    by (rule length_dropWhile_le)
  ultimately have shorter: "length rest < length str" using r by simp
  have cs: "length (c_str (take (laraResponseBacklogLength s1) (laraResponseBacklog s1)))
              \<le> laraResponseBacklogLength s1"
    using length_takeWhile_le
      [of "\<lambda>c. c \<noteq> NUL" "take (laraResponseBacklogLength s1) (laraResponseBacklog s1)"]
    by (simp add: c_str_def)
  from 2 shorter cs show ?case by simp arith
next
  case (3 p str avail handled h s x2 event rest x2a x2b latestHandled x2c called x2d h1 s1)
  let ?s1 = "dropWhile is_delim str"
  from 3 have tok: "strtok_r str = Some (event, rest)" by simp
  then have ne: "?s1 \<noteq> []"
    and r: "rest = drop 1 (dropWhile (\<lambda>c. \<not> is_delim c) ?s1)"
    by (auto simp: strtok_r_def Let_def split: if_splits)
  from ne have "\<not> is_delim (hd ?s1)"
    using hd_dropWhile by blast
  with ne have "length (dropWhile (\<lambda>c. \<not> is_delim c) ?s1) < length ?s1"
    by (cases ?s1) (auto simp: less_Suc_eq_le length_dropWhile_le)
  moreover have "length ?s1 \<le> length str"
    by (rule length_dropWhile_le)
  ultimately show ?case using r by simp
qed

declare poll_events.simps [simp del]

text \<open>
  The body of \<open>bufferedPoll\<close>, for a given \<open>processURCEvent\<close>. The backlog is copied to
  \<open>_laraRXBuffer\<close> with \<open>memcpy\<close>, \<open>_laraResponseBacklogLength\<close> bytes of it, the read loop
  fills the buffer up to its last byte, and \<open>strtok_r\<close> reads it as a C string.
\<close>

definition bufferedPoll_body ::
  "(string \<Rightarrow> hw \<Rightarrow> lara \<Rightarrow> (fault + bool \<times> 'c \<times> hw \<times> lara) option) \<Rightarrow> hw \<Rightarrow> lara
     \<Rightarrow> (fault + bool \<times> (string \<times> 'c) list \<times> hw \<times> lara) option"
where
  "bufferedPoll_body processURCEvent h s =
     (if bufferedPollReentrant s then Some (Inr (False, [], h, s))
      else
        (case millis h of
           None \<Rightarrow> None
         | Some (timeIn, h1) \<Rightarrow>
             (let backlogLen = laraResponseBacklogLength s;
                  buf = (if laraResponseBacklogLength s > 0
                         then take (laraResponseBacklogLength s) (laraResponseBacklog s)
                         else []);
                  s1 = (if laraResponseBacklogLength s > 0
                        then s\<lparr>laraResponseBacklog := [], laraResponseBacklogLength := 0,
                                bufferedPollReentrant := True\<rparr>
                        else s\<lparr>bufferedPollReentrant := True\<rparr>)
              in if RXBuffSize < backlogLen then Some (Inl (Overrun backlogLen))
                 else
                   (case hwAvailable h1 of
                      (avail_now, h2) \<Rightarrow>
                        if avail_now \<or> backlogLen > 0
                        then (case poll_read_loop timeIn buf h2 of
                                None \<Rightarrow> None
                              | Some (buf', h3) \<Rightarrow>
                                  (case buffer_str buf' of
                                     Inl f \<Rightarrow> Some (Inl f)
                                   | Inr str \<Rightarrow>
                                       (case poll_events processURCEvent str (length buf')
                                               False h3 s1 of
                                          None \<Rightarrow> None
                                        | Some (Inl f) \<Rightarrow> Some (Inl f)
                                        | Some (Inr (handled, events, h4, s4)) \<Rightarrow>
                                            Some (Inr (handled, events, h4,
                                                       s4\<lparr>bufferedPollReentrant := False\<rparr>)))))
                        else Some (Inr (False, [], h2, s1\<lparr>bufferedPollReentrant := False\<rparr>))))))"

section \<open>processURCEvent: the socket-data notification\<close>

text \<open>
  \<open>sscanf\<close> with the conversion \<open>%d\<close>: white space is skipped, then an optional sign and a
  non-empty run of decimal digits are read. The C library leaves a number outside the
  range of \<open>int\<close> undefined; the value here is the one that the GNU C library stores
  where \<open>long\<close> has 64 bits: \<open>strtol\<close> saturates at the range of \<open>long\<close>, and the store
  into the \<open>int\<close> keeps the low 32 bits.
\<close>

definition is_space :: "char \<Rightarrow> bool" where
  "is_space c \<longleftrightarrow> c \<in> set [CHR '' '', CHR 0x09, CHR 0x0A, CHR 0x0B, CHR 0x0C, CHR 0x0D]"

definition is_digit :: "char \<Rightarrow> bool" where
  "is_digit c \<longleftrightarrow> c \<in> set ''0123456789''"

definition digit_val :: "char \<Rightarrow> int" where
  "digit_val c = int (of_char c) - 48"

definition strtol_value :: "bool \<Rightarrow> int \<Rightarrow> int" where
  "strtol_value neg n =
     (if neg then max (- 9223372036854775808) (- n) else min 9223372036854775807 n)"

definition int32 :: "int \<Rightarrow> int" where
  "int32 n = (n + 2147483648) mod 4294967296 - 2147483648"

definition scan_int :: "string \<Rightarrow> (int \<times> string) option" where
  "scan_int str =
     (let s1 = dropWhile is_space str;
          neg = (case s1 of [] \<Rightarrow> False | c # r \<Rightarrow> c = CHR ''-'');
          s2 = (case s1 of [] \<Rightarrow> [] | c # r \<Rightarrow> if c = CHR ''-'' \<or> c = CHR ''+'' then r else s1);
          ds = takeWhile is_digit s2;
          n = foldl (\<lambda>a c. 10 * a + digit_val c) 0 ds
      in if ds = [] then None
         else Some (int32 (strtol_value neg n), dropWhile is_digit s2))"

text \<open>\<open>sscanf(p, "%d,%d", &a, &b) == 2\<close>, with the two values.\<close>

definition sscanf_d_comma_d :: "string \<Rightarrow> (int \<times> int) option" where
  "sscanf_d_comma_d str =
     (case scan_int str of
        None \<Rightarrow> None
      | Some (a, r) \<Rightarrow>
          (case r of
             [] \<Rightarrow> None
           | c # r' \<Rightarrow>
               if c = CHR '','' then
                 (case scan_int r' of None \<Rightarrow> None | Some (b, r'') \<Rightarrow> Some (a, b))
               else None))"

text \<open>
  The first block of \<open>processURCEvent\<close>, for \<open>+UUSORD\<close>. It reads
  \<open>_lastSocketProtocol[socket]\<close>, an array of \<open>LARA_R6_NUM_SOCKETS\<close> elements, with the
  socket number as \<open>sscanf\<close> returned it. The result names the parse function that is
  called next; a read outside the array is a result of its own. \<open>None\<close>: the block
  falls through to the next one.
\<close>

datatype read_socket_action =
    ParseSocketReadIndicationUDP int int
  | ParseSocketReadIndication int int
  | ReadOutsideSocketTable int

definition processURCEvent_UUSORD :: "lara \<Rightarrow> string \<Rightarrow> read_socket_action option" where
  "processURCEvent_UUSORD s event =
     (case strstr event LARA_R6_READ_SOCKET_URC of
        None \<Rightarrow> None
      | Some searchPtr \<Rightarrow>
          (case sscanf_d_comma_d
                  (dropWhile (\<lambda>c. c = CHR '' '')
                     (drop (length LARA_R6_READ_SOCKET_URC) searchPtr)) of
             None \<Rightarrow> None
           | Some (socket, len) \<Rightarrow>
               if 0 \<le> socket \<and> socket < LARA_R6_NUM_SOCKETS
               then (if lastSocketProtocol s ! nat socket = LARA_R6_UDP
                     then Some (ParseSocketReadIndicationUDP socket len)
                     else Some (ParseSocketReadIndication socket len))
               else Some (ReadOutsideSocketTable socket)))"

section \<open>processURCEvent: sscanf\<close>

text \<open>
  The directives of the formats that \<open>processURCEvent\<close> hands to \<open>sscanf\<close>: an ordinary
  character, \<open>%d\<close> (and \<open>%ld\<close>), \<open>%u\<close> (and \<open>%lu\<close>), \<open>%x\<close> with a field width, a scanset
  \<open>%[^c]\<close> with the size of the array it is stored in, and the suppressed \<open>%*d\<close> and \<open>%*s\<close>.
\<close>

datatype directive =
    Lit char
  | Conv_d
  | Conv_u
  | Conv_x nat
  | Conv_set char nat
  | Skip_d
  | Skip_s

definition uint32 :: "int \<Rightarrow> int" where
  "uint32 n = n mod 4294967296"

definition strtoul_value :: "bool \<Rightarrow> int \<Rightarrow> int" where
  "strtoul_value neg n =
     (if 18446744073709551615 < n then 18446744073709551615 else if neg then - n else n)"

text \<open>\<open>%u\<close>: as \<open>%d\<close>, the value taken as an \<open>unsigned int\<close>.\<close>

definition scan_unsigned :: "string \<Rightarrow> (int \<times> string) option" where
  "scan_unsigned str =
     (let s1 = dropWhile is_space str;
          neg = (case s1 of [] \<Rightarrow> False | c # r \<Rightarrow> c = CHR ''-'');
          s2 = (case s1 of [] \<Rightarrow> [] | c # r \<Rightarrow> if c = CHR ''-'' \<or> c = CHR ''+'' then r else s1);
          ds = takeWhile is_digit s2;
          n = foldl (\<lambda>a c. 10 * a + digit_val c) 0 ds
      in if ds = [] then None
         else Some (uint32 (strtoul_value neg n), dropWhile is_digit s2))"

definition is_xdigit :: "char \<Rightarrow> bool" where
  "is_xdigit c \<longleftrightarrow> c \<in> set ''0123456789abcdefABCDEF''"

definition xdigit_val :: "char \<Rightarrow> int" where
  "xdigit_val c =
     (if is_digit c then int (of_char c) - 48
      else if c \<in> set ''abcdef'' then int (of_char c) - 87
      else int (of_char c) - 55)"

text \<open>
  \<open>%x\<close> with the field width \<open>w\<close>: white space is skipped; then at most \<open>w\<close> characters are
  read: an optional sign, a \<open>0\<close> that an \<open>x\<close> or \<open>X\<close> may follow, and hexadecimal digits. The
  value is that of the digits read, the leading \<open>0\<close> among them.
\<close>

definition scan_hex :: "nat \<Rightarrow> string \<Rightarrow> (int \<times> string) option" where
  "scan_hex w str =
     (let s1 = dropWhile is_space str;
          signed = (0 < w \<and> (case s1 of [] \<Rightarrow> False | c # r \<Rightarrow> c = CHR ''-'' \<or> c = CHR ''+''));
          neg = (signed \<and> hd s1 = CHR ''-'');
          s2 = (if signed then tl s1 else s1);
          w2 = (if signed then w - 1 else w);
          zero = (0 < w2 \<and> (case s2 of [] \<Rightarrow> False | c # r \<Rightarrow> c = CHR ''0''));
          s3 = (if zero then tl s2 else s2);
          w3 = (if zero then w2 - 1 else w2);
          prefixed = (zero \<and> 0 < w3
                      \<and> (case s3 of [] \<Rightarrow> False | c # r \<Rightarrow> c = CHR ''x'' \<or> c = CHR ''X''));
          s4 = (if prefixed then tl s3 else s3);
          w4 = (if prefixed then w3 - 1 else w3);
          ds = takeWhile is_xdigit (take w4 s4);
          n = foldl (\<lambda>a c. 16 * a + xdigit_val c) 0 ds
      in if \<not> zero \<and> ds = [] then None
         else Some (uint32 (strtoul_value neg n), drop (length ds) s4))"

text \<open>
  \<open>sscanf(str, format, ...)\<close>: the values converted and assigned, in order; their number
  is what \<open>sscanf\<close> returns (where \<open>sscanf\<close> returns \<open>EOF\<close> no value is assigned; the driver
  compares the number with positive numbers only). A scanset is stored with its NUL in
  an array of the given size.
\<close>

fun sscanf :: "directive list \<Rightarrow> string \<Rightarrow> fault + scanned list" where
  "sscanf [] str = Inr []"
| "sscanf (Lit c # fmt) str =
     (case str of
        [] \<Rightarrow> Inr []
      | x # rest \<Rightarrow> if x = c then sscanf fmt rest else Inr [])"
| "sscanf (Conv_d # fmt) str =
     (case scan_int str of
        None \<Rightarrow> Inr []
      | Some (n, rest) \<Rightarrow>
          (case sscanf fmt rest of Inl f \<Rightarrow> Inl f | Inr vs \<Rightarrow> Inr (Number n # vs)))"
| "sscanf (Conv_u # fmt) str =
     (case scan_unsigned str of
        None \<Rightarrow> Inr []
      | Some (n, rest) \<Rightarrow>
          (case sscanf fmt rest of Inl f \<Rightarrow> Inl f | Inr vs \<Rightarrow> Inr (Number n # vs)))"
| "sscanf (Conv_x w # fmt) str =
     (case scan_hex w str of
        None \<Rightarrow> Inr []
      | Some (n, rest) \<Rightarrow>
          (case sscanf fmt rest of Inl f \<Rightarrow> Inl f | Inr vs \<Rightarrow> Inr (Number n # vs)))"
| "sscanf (Conv_set c room # fmt) str =
     (let item = takeWhile (\<lambda>x. x \<noteq> c) str
      in if item = [] then Inr []
         else if room \<le> length item then Inl (Overrun (length item))
         else (case sscanf fmt (drop (length item) str) of
                 Inl f \<Rightarrow> Inl f
               | Inr vs \<Rightarrow> Inr (Text item # vs)))"
| "sscanf (Skip_d # fmt) str =
     (case scan_int str of
        None \<Rightarrow> Inr []
      | Some (n, rest) \<Rightarrow> sscanf fmt rest)"
| "sscanf (Skip_s # fmt) str =
     (let s1 = dropWhile is_space str;
          item = takeWhile (\<lambda>x. \<not> is_space x) s1
      in if item = [] then Inr [] else sscanf fmt (drop (length item) s1))"

text \<open>
  The \<open>i\<close>-th value converted, for a variable that the code has initialised to 0, and the
  value stored by the cast \<open>(uint8_t)\<close>.
\<close>

definition num :: "scanned list \<Rightarrow> nat \<Rightarrow> int" where
  "num vs i = (if i < length vs then (case vs ! i of Number n \<Rightarrow> n | Text t \<Rightarrow> 0) else 0)"

definition uint8 :: "int \<Rightarrow> int" where
  "uint8 n = n mod 256"

definition DQUOTE :: char where "DQUOTE = CHR 0x22"

text \<open>
  The head of every block of \<open>processURCEvent\<close>: \<open>strstr(event, tag)\<close>, and when the tag is
  found \<open>searchPtr\<close> moved past it and past the spaces that follow.
\<close>

definition after_tag :: "string \<Rightarrow> string \<Rightarrow> string option" where
  "after_tag event tag =
     (case strstr event tag of
        None \<Rightarrow> None
      | Some searchPtr \<Rightarrow>
          Some (dropWhile (\<lambda>c. c = CHR '' '') (drop (length tag) searchPtr)))"

section \<open>processURCEvent: the blocks\<close>

text \<open>
  What a block of \<open>processURCEvent\<close> calls before it returns true: one of the three parse
  functions with its arguments, or a callback with the values it is called with.
\<close>

datatype urc_call =
    SocketReadIndication int int
  | SocketReadIndicationUDP int int
  | SocketListenIndication int "int list" int int "int list" int
  | Callback callback "scanned list"

text \<open>
  A block falls through to the next one (\<open>Next\<close>), or returns true after the call it has
  made, if any (\<open>Done\<close>).
\<close>

datatype block_result = Next | Done "urc_call option"

text \<open>A callback is called when its pointer is not null.\<close>

definition call_back :: "lara \<Rightarrow> callback \<Rightarrow> scanned list \<Rightarrow> urc_call option" where
  "call_back s cb args = (case callbacks s cb of None \<Rightarrow> None | Some f \<Rightarrow> Some (Callback cb args))"

definition block_UUSORD :: "lara \<Rightarrow> string \<Rightarrow> fault + block_result" where
  "block_UUSORD s event =
     (case processURCEvent_UUSORD s event of
        None \<Rightarrow> Inr Next
      | Some (ParseSocketReadIndicationUDP socket len) \<Rightarrow>
          Inr (Done (Some (SocketReadIndicationUDP socket len)))
      | Some (ParseSocketReadIndication socket len) \<Rightarrow>
          Inr (Done (Some (SocketReadIndication socket len)))
      | Some (ReadOutsideSocketTable socket) \<Rightarrow> Inl (OutsideSocketTable socket))"

text \<open>\<open>+UUSORF\<close>: \<open>sscanf(searchPtr, "%d,%d", &socket, &length)\<close>, called for \<open>ret == 2\<close>.\<close>

definition block_UUSORF :: "string \<Rightarrow> fault + block_result" where
  "block_UUSORF event =
     (case after_tag event LARA_R6_READ_UDP_SOCKET_URC of
        None \<Rightarrow> Inr Next
      | Some searchPtr \<Rightarrow>
          (case sscanf [Conv_d, Lit (CHR '',''), Conv_d] searchPtr of
             Inl f \<Rightarrow> Inl f
           | Inr vs \<Rightarrow>
               if length vs = 2
               then Inr (Done (Some (SocketReadIndicationUDP (num vs 0) (num vs 1))))
               else Inr Next))"

text \<open>
  \<open>+UUSOLI\<close>: the format is \<open>%d,"%d.%d.%d.%d",%u,%d,"%d.%d.%d.%d",%u\<close>, for \<open>socket\<close>,
  \<open>remoteIPstore\<close>, \<open>port\<close>, \<open>listenSocket\<close>, \<open>localIPstore\<close> and \<open>listenPort\<close>, all
  initialised to 0; \<open>parseSocketListenIndication\<close> is called for \<open>ret >= 5\<close>, with the
  local address only for \<open>ret >= 11\<close>.
\<close>

definition block_UUSOLI :: "string \<Rightarrow> fault + block_result" where
  "block_UUSOLI event =
     (case after_tag event LARA_R6_LISTEN_SOCKET_URC of
        None \<Rightarrow> Inr Next
      | Some searchPtr \<Rightarrow>
          (case sscanf [Conv_d, Lit (CHR '',''),
                        Lit DQUOTE, Conv_d, Lit (CHR ''.''), Conv_d, Lit (CHR ''.''), Conv_d,
                        Lit (CHR ''.''), Conv_d, Lit DQUOTE, Lit (CHR '',''),
                        Conv_u, Lit (CHR '',''), Conv_d, Lit (CHR '',''),
                        Lit DQUOTE, Conv_d, Lit (CHR ''.''), Conv_d, Lit (CHR ''.''), Conv_d,
                        Lit (CHR ''.''), Conv_d, Lit DQUOTE, Lit (CHR '',''),
                        Conv_u] searchPtr of
             Inl f \<Rightarrow> Inl f
           | Inr vs \<Rightarrow>
               if 5 \<le> length vs
               then Inr (Done (Some (SocketListenIndication
                                       (num vs 6)
                                       (if 11 \<le> length vs
                                        then map (\<lambda>i. uint8 (num vs i)) [7, 8, 9, 10]
                                        else [0, 0, 0, 0])
                                       (num vs 11)
                                       (num vs 0)
                                       (map (\<lambda>i. uint8 (num vs i)) [1, 2, 3, 4])
                                       (num vs 5))))
               else Inr Next))"

text \<open>
  \<open>+UUSOCL\<close>: \<open>sscanf(searchPtr, "%d", &socket)\<close>; for \<open>ret == 1\<close> the block returns true,
  and it calls \<open>_socketCloseCallback\<close> for a socket from 0 to 6.
\<close>

definition block_UUSOCL :: "lara \<Rightarrow> string \<Rightarrow> fault + block_result" where
  "block_UUSOCL s event =
     (case after_tag event LARA_R6_CLOSE_SOCKET_URC of
        None \<Rightarrow> Inr Next
      | Some searchPtr \<Rightarrow>
          (case sscanf [Conv_d] searchPtr of
             Inl f \<Rightarrow> Inl f
           | Inr vs \<Rightarrow>
               if length vs = 1
               then Inr (Done (if 0 \<le> num vs 0 \<and> num vs 0 \<le> 6
                               then call_back s SocketCloseCallback [Number (num vs 0)]
                               else None))
               else Inr Next))"

text \<open>
  \<open>+UULOC\<close>: the format is \<open>%d/%d/%d,%d:%d:%d.%d,%d.%[^,],%d.%[^,],%d,%lu,%u,%u,%*s\<close>; the
  two scansets are stored in \<open>latL\<close> and \<open>lonL\<close>, arrays of 10 characters. For
  \<open>scanNum >= 13\<close> the block returns true and calls \<open>_gpsRequestCallback\<close> with the
  time, the position and the uncertainty built from the first 13 values, and with the
  speed built from the two that follow when \<open>scanNum >= 15\<close>.
\<close>

definition block_UULOC :: "lara \<Rightarrow> string \<Rightarrow> fault + block_result" where
  "block_UULOC s event =
     (case after_tag event LARA_R6_GNSS_REQUEST_LOCATION_URC of
        None \<Rightarrow> Inr Next
      | Some searchPtr \<Rightarrow>
          (case sscanf [Conv_d, Lit (CHR ''/''), Conv_d, Lit (CHR ''/''), Conv_d, Lit (CHR '',''),
                        Conv_d, Lit (CHR '':''), Conv_d, Lit (CHR '':''), Conv_d, Lit (CHR ''.''),
                        Conv_d, Lit (CHR '',''),
                        Conv_d, Lit (CHR ''.''), Conv_set (CHR '','') 10, Lit (CHR '',''),
                        Conv_d, Lit (CHR ''.''), Conv_set (CHR '','') 10, Lit (CHR '',''),
                        Conv_d, Lit (CHR '',''), Conv_u, Lit (CHR '',''),
                        Conv_u, Lit (CHR '',''), Conv_u, Lit (CHR '',''), Skip_s] searchPtr of
             Inl f \<Rightarrow> Inl f
           | Inr vs \<Rightarrow>
               if 13 \<le> length vs
               then Inr (Done (call_back s GpsRequestCallback
                                 (if 15 \<le> length vs then vs else take 13 vs)))
               else Inr Next))"

text \<open>\<open>+UUSIMSTAT\<close>: \<open>sscanf(searchPtr, "%d", &stateStore)\<close>, called for \<open>scanNum == 1\<close>.\<close>

definition block_UUSIMSTAT :: "lara \<Rightarrow> string \<Rightarrow> fault + block_result" where
  "block_UUSIMSTAT s event =
     (case after_tag event LARA_R6_SIM_STATE_URC of
        None \<Rightarrow> Inr Next
      | Some searchPtr \<Rightarrow>
          (case sscanf [Conv_d] searchPtr of
             Inl f \<Rightarrow> Inl f
           | Inr vs \<Rightarrow>
               if length vs = 1
               then Inr (Done (call_back s SimStateReportCallback [Number (num vs 0)]))
               else Inr Next))"

text \<open>
  \<open>+UUHTTPCR\<close>: \<open>sscanf(searchPtr, "%d,%d,%d", &profile, &command, &result)\<close>; for
  \<open>scanNum == 3\<close> the block returns true, and it calls \<open>_httpCommandRequestCallback\<close> for
  a profile below \<open>LARA_R6_NUM_HTTP_PROFILES\<close>, which is 4.
\<close>

definition block_UUHTTPCR :: "lara \<Rightarrow> string \<Rightarrow> fault + block_result" where
  "block_UUHTTPCR s event =
     (case after_tag event LARA_R6_HTTP_COMMAND_URC of
        None \<Rightarrow> Inr Next
      | Some searchPtr \<Rightarrow>
          (case sscanf [Conv_d, Lit (CHR '',''), Conv_d, Lit (CHR '',''), Conv_d] searchPtr of
             Inl f \<Rightarrow> Inl f
           | Inr vs \<Rightarrow>
               if length vs = 3
               then Inr (Done (if 0 \<le> num vs 0 \<and> num vs 0 < 4
                               then call_back s HttpCommandRequestCallback
                                      [Number (num vs 0), Number (num vs 1), Number (num vs 2)]
                               else None))
               else Inr Next))"

text \<open>
  \<open>+UUMQTTC\<close>: \<open>sscanf(searchPtr, "%d,%d", &command, &result)\<close>; when it returns 2 and the
  command is \<open>LARA_R6_MQTT_COMMAND_SUBSCRIBE\<close>, which is 4, a second
  \<open>sscanf(searchPtr, "%*d,%*d,%d,\"%[^\"]\"", &qos, topicC)\<close> sets \<open>scanNum\<close>, with \<open>topicC\<close>
  an array of 100 characters. The block returns true for \<open>scanNum\<close> 2 or 4.
\<close>

definition block_UUMQTTC :: "lara \<Rightarrow> string \<Rightarrow> fault + block_result" where
  "block_UUMQTTC s event =
     (case after_tag event LARA_R6_MQTT_COMMAND_URC of
        None \<Rightarrow> Inr Next
      | Some searchPtr \<Rightarrow>
          (case sscanf [Conv_d, Lit (CHR '',''), Conv_d] searchPtr of
             Inl f \<Rightarrow> Inl f
           | Inr vs \<Rightarrow>
               (case (if length vs = 2 \<and> num vs 0 = 4
                      then sscanf [Skip_d, Lit (CHR '',''), Skip_d, Lit (CHR '',''), Conv_d,
                                   Lit (CHR '',''), Lit DQUOTE, Conv_set DQUOTE 100, Lit DQUOTE]
                             searchPtr
                      else Inr vs) of
                  Inl f \<Rightarrow> Inl f
                | Inr vs2 \<Rightarrow>
                    if length vs2 = 2 \<or> length vs2 = 4
                    then Inr (Done (call_back s MqttCommandRequestCallback
                                      [Number (num vs 0), Number (num vs 1)]))
                    else Inr Next)))"

text \<open>
  \<open>+UUFTPCR\<close>: \<open>sscanf(searchPtr, "%d,%d", &ftpCmd, &ftpResult)\<close>; the block returns true
  only when \<open>scanNum == 2\<close> and \<open>_ftpCommandRequestCallback\<close> is not null.
\<close>

definition block_UUFTPCR :: "lara \<Rightarrow> string \<Rightarrow> fault + block_result" where
  "block_UUFTPCR s event =
     (case after_tag event LARA_R6_FTP_COMMAND_URC of
        None \<Rightarrow> Inr Next
      | Some searchPtr \<Rightarrow>
          (case sscanf [Conv_d, Lit (CHR '',''), Conv_d] searchPtr of
             Inl f \<Rightarrow> Inl f
           | Inr vs \<Rightarrow>
               if length vs = 2 \<and> callbacks s FtpCommandRequestCallback \<noteq> None
               then Inr (Done (call_back s FtpCommandRequestCallback
                                 [Number (num vs 0), Number (num vs 1)]))
               else Inr Next))"

text \<open>
  \<open>+UUPING\<close>: \<open>sscanf(searchPtr, "%d,%d,", &retry, &p_size)\<close>; for \<open>scanNum == 2\<close> the block
  returns true. Before that, \<open>strchr(++searchPtr, '\"')\<close> looks for the first double quote
  and the \<open>while\<close> loop reads from the character after it, up to the next double quote or
  the end of the string; the code does not test the pointer that \<open>strchr\<close> returns. When
  a second double quote is found, \<open>sscanf(searchPtr, "\",\"%d.%d.%d.%d\",%d,%ld", ...)\<close>
  reads the address, \<open>ttl\<close> and \<open>rtt\<close>, and \<open>_pingRequestCallback\<close> is called for
  \<open>scanNum == 6\<close>.
\<close>

definition block_UUPING :: "lara \<Rightarrow> string \<Rightarrow> fault + block_result" where
  "block_UUPING s event =
     (case after_tag event LARA_R6_PING_COMMAND_URC of
        None \<Rightarrow> Inr Next
      | Some searchPtr \<Rightarrow>
          (case sscanf [Conv_d, Lit (CHR '',''), Conv_d, Lit (CHR '','')] searchPtr of
             Inl f \<Rightarrow> Inl f
           | Inr vs \<Rightarrow>
               if length vs = 2
               then (case dropWhile (\<lambda>c. c \<noteq> DQUOTE) (drop 1 searchPtr) of
                       [] \<Rightarrow> Inl NullPointer
                     | q # after \<Rightarrow>
                         (let remote_host = takeWhile (\<lambda>c. c \<noteq> DQUOTE) after;
                              closing = dropWhile (\<lambda>c. c \<noteq> DQUOTE) after
                          in if closing = [] then Inr (Done None)
                             else
                               (case sscanf [Lit DQUOTE, Lit (CHR '',''), Lit DQUOTE,
                                             Conv_d, Lit (CHR ''.''), Conv_d, Lit (CHR ''.''),
                                             Conv_d, Lit (CHR ''.''), Conv_d, Lit DQUOTE,
                                             Lit (CHR '',''), Conv_d, Lit (CHR '',''), Conv_d]
                                       closing of
                                  Inl f \<Rightarrow> Inl f
                                | Inr ws \<Rightarrow>
                                    Inr (Done (if length ws = 6
                                               then call_back s PingRequestCallback
                                                      ([Number (num vs 0), Number (num vs 1),
                                                        Text remote_host]
                                                       @ map (\<lambda>i. Number (uint8 (num ws i)))
                                                           [0, 1, 2, 3]
                                                       @ [Number (num ws 4), Number (num ws 5)])
                                               else None)))))
               else Inr Next))"

text \<open>
  \<open>+CREG\<close> and \<open>+CEREG\<close>: \<open>sscanf(searchPtr, "%d,\"%4x\",\"%4x\",%d", ...)\<close>, called for
  \<open>scanNum == 4\<close>.
\<close>

definition block_registration :: "string \<Rightarrow> callback \<Rightarrow> lara \<Rightarrow> string \<Rightarrow> fault + block_result"
where
  "block_registration tag cb s event =
     (case after_tag event tag of
        None \<Rightarrow> Inr Next
      | Some searchPtr \<Rightarrow>
          (case sscanf [Conv_d, Lit (CHR '',''), Lit DQUOTE, Conv_x 4, Lit DQUOTE,
                        Lit (CHR '',''), Lit DQUOTE, Conv_x 4, Lit DQUOTE, Lit (CHR '',''),
                        Conv_d] searchPtr of
             Inl f \<Rightarrow> Inl f
           | Inr vs \<Rightarrow>
               if length vs = 4
               then Inr (Done (call_back s cb
                                 [Number (num vs 0), Number (num vs 1), Number (num vs 2),
                                  Number (num vs 3)]))
               else Inr Next))"

text \<open>
  The blocks in the order of the source: the first one that does not fall through ends
  \<open>processURCEvent\<close> with true; when all fall through it returns false. The result
  is what \<open>processURCEvent\<close> returns and what it calls.
\<close>

fun first_done :: "(fault + block_result) list \<Rightarrow> fault + bool \<times> urc_call option" where
  "first_done [] = Inr (False, None)"
| "first_done (b # bs) =
     (case b of
        Inl f \<Rightarrow> Inl f
      | Inr Next \<Rightarrow> first_done bs
      | Inr (Done called) \<Rightarrow> Inr (True, called))"

definition processURCEvent_blocks :: "lara \<Rightarrow> string \<Rightarrow> fault + bool \<times> urc_call option" where
  "processURCEvent_blocks s event =
     first_done
       [block_UUSORD s event,
        block_UUSORF event,
        block_UUSOLI event,
        block_UUSOCL s event,
        block_UULOC s event,
        block_UUSIMSTAT s event,
        block_UUHTTPCR s event,
        block_UUMQTTC s event,
        block_UUFTPCR s event,
        block_UUPING s event,
        block_registration LARA_R6_REGISTRATION_STATUS_URC RegistrationCallback s event,
        block_registration LARA_R6_EPSREGISTRATION_STATUS_URC EpsRegistrationCallback s event]"

section \<open>processURCEvent: the calls\<close>

text \<open>What a call of \<open>bufferedPoll\<close> made by the application does and returns.\<close>

type_synonym poll = "hw \<Rightarrow> lara \<Rightarrow> (fault + bool \<times> hw \<times> lara) option"

text \<open>
  A program is run against the port and the session. \<open>sendCustomCommandWithResponse\<close> calls
  \<open>sendCommandWithResponse\<close> with a \<open>destSize\<close> of 32766.
\<close>

primrec run :: "poll \<Rightarrow> prog \<Rightarrow> hw \<Rightarrow> lara \<Rightarrow> (fault + hw \<times> lara) option" where
  "run poll Return = (\<lambda>h s. Some (Inr (h, s)))"
| "run poll (BufferedPoll k) =
     (\<lambda>h s. case poll h s of
               None \<Rightarrow> None
             | Some (Inl f) \<Rightarrow> Some (Inl f)
             | Some (Inr (handled, h', s')) \<Rightarrow> run poll (k handled) h' s')"
| "run poll (SendCustomCommandWithResponse command expectedResponse commandTimeout at k) =
     (\<lambda>h s. case sendCommandWithResponse command expectedResponse True commandTimeout 32766 at h s of
               None \<Rightarrow> None
             | Some (Inl f) \<Rightarrow> Some (Inl f)
             | Some (Inr (res, d, h', s')) \<Rightarrow>
                 run poll (k res (case d of None \<Rightarrow> [] | Some response \<Rightarrow> response)) h' s')"

text \<open>
  \<open>parseSocketReadIndication\<close> and \<open>parseSocketReadIndicationUDP\<close> return at once for a
  negative socket or length, and when both \<open>_socketReadCallback\<close> and
  \<open>_socketReadCallbackPlus\<close> are null. Otherwise they read the socket with \<open>socketRead\<close>
  or \<open>socketReadUDP\<close>, which send commands of their own, and call the callbacks with
  the data: a program \<open>read\<close>, given the socket and the length.
\<close>

definition parseSocketReadIndication :: "(int \<Rightarrow> int \<Rightarrow> prog) \<Rightarrow> lara \<Rightarrow> int \<Rightarrow> int \<Rightarrow> prog" where
  "parseSocketReadIndication read s socket len =
     (if socket < 0 \<or> len < 0 then Return
      else if callbacks s SocketReadCallback = None \<and> callbacks s SocketReadCallbackPlus = None
      then Return
      else read socket len)"

text \<open>The two programs that read a socket.\<close>

record socket_reads =
  socketRead :: "int \<Rightarrow> int \<Rightarrow> prog"
  socketReadUDP :: "int \<Rightarrow> int \<Rightarrow> prog"

text \<open>
  The call that a block makes. \<open>parseSocketListenIndication\<close> stores the two addresses
  and calls \<open>_socketListenCallback\<close> when it is not null.
\<close>

definition perform ::
  "poll \<Rightarrow> socket_reads \<Rightarrow> urc_call \<Rightarrow> hw \<Rightarrow> lara \<Rightarrow> (fault + hw \<times> lara) option" where
  "perform poll reads called h s =
     (case called of
        SocketReadIndication socket len \<Rightarrow>
          run poll (parseSocketReadIndication (socketRead reads) s socket len) h s
      | SocketReadIndicationUDP socket len \<Rightarrow>
          run poll (parseSocketReadIndication (socketReadUDP reads) s socket len) h s
      | SocketListenIndication listeningSocket localIP listeningPort socket remoteIP port \<Rightarrow>
          run poll
            (case callbacks s SocketListenCallback of
               None \<Rightarrow> Return
             | Some f \<Rightarrow> f ([Number listeningSocket] @ map Number localIP
                            @ [Number listeningPort, Number socket] @ map Number remoteIP
                            @ [Number port]))
            h (s\<lparr>lastLocalIP := localIP, lastRemoteIP := remoteIP\<rparr>)
      | Callback cb args \<Rightarrow>
          run poll (case callbacks s cb of None \<Rightarrow> Return | Some f \<Rightarrow> f args) h s)"

text \<open>
  \<open>processURCEvent\<close>, given what a call of \<open>bufferedPoll\<close> from the application does:
  the blocks, then the call made by the block that ends it. The result is what
  \<open>processURCEvent\<close> returns, what it has called, and the port and the session after it.
\<close>

definition processURCEvent ::
  "poll \<Rightarrow> socket_reads \<Rightarrow> string \<Rightarrow> hw \<Rightarrow> lara
     \<Rightarrow> (fault + bool \<times> urc_call option \<times> hw \<times> lara) option"
where
  "processURCEvent poll reads event h s =
     (case processURCEvent_blocks s event of
        Inl f \<Rightarrow> Some (Inl f)
      | Inr (handled, None) \<Rightarrow> Some (Inr (handled, None, h, s))
      | Inr (handled, Some called) \<Rightarrow>
          (case perform poll reads called h s of
             None \<Rightarrow> None
           | Some (Inl f) \<Rightarrow> Some (Inl f)
           | Some (Inr (h', s')) \<Rightarrow> Some (Inr (handled, Some called, h', s'))))"

section \<open>bufferedPoll\<close>

text \<open>
  \<open>bufferedPoll\<close>. A callback may call \<open>bufferedPoll\<close> again, and that call may reach a
  callback in turn: \<open>bufferedPoll n\<close> follows such calls to the depth \<open>n\<close> and has the
  value \<open>None\<close> when they go deeper.
\<close>

primrec bufferedPoll ::
  "nat \<Rightarrow> socket_reads \<Rightarrow> hw \<Rightarrow> lara
     \<Rightarrow> (fault + bool \<times> (string \<times> urc_call option) list \<times> hw \<times> lara) option"
where
  "bufferedPoll 0 reads = (\<lambda>h s. None)"
| "bufferedPoll (Suc n) reads =
     bufferedPoll_body
       (processURCEvent
          (\<lambda>h s. case bufferedPoll n reads h s of
                   None \<Rightarrow> None
                 | Some (Inl f) \<Rightarrow> Some (Inl f)
                 | Some (Inr (handled, events, h', s')) \<Rightarrow> Some (Inr (handled, h', s')))
          reads)"

section \<open>Auxiliary notions\<close>

text \<open>All the tokens that repeated calls of \<open>strtok_r\<close> return on a string.\<close>

function strtok_all :: "string \<Rightarrow> string list" where
  "strtok_all str =
     (case strtok_r str of None \<Rightarrow> [] | Some (event, rest) \<Rightarrow> event # strtok_all rest)"
  by pat_completeness auto
termination
proof (relation "measure length")
  show "wf (measure length)" by simp
  show "(rest, str) \<in> measure length"
    if "strtok_r str = Some x2" "(event, rest) = x2" for str x2 event rest
  proof -
    let ?s1 = "dropWhile is_delim str"
    from that have ne: "?s1 \<noteq> []"
      and r: "rest = drop 1 (dropWhile (\<lambda>c. \<not> is_delim c) ?s1)"
      by (auto simp: strtok_r_def Let_def split: if_splits)
    from ne have "\<not> is_delim (hd ?s1)"
      using hd_dropWhile by blast
    with ne have "length (dropWhile (\<lambda>c. \<not> is_delim c) ?s1) < length ?s1"
      by (cases ?s1) (auto simp: less_Suc_eq_le length_dropWhile_le)
    moreover have "length ?s1 \<le> length str"
      by (rule length_dropWhile_le)
    ultimately show ?thesis using r by simp
  qed
qed

declare strtok_all.simps [simp del]

text \<open>
  The same tokens, by one pass over the string: \<open>cur\<close> is the token begun, a CR or an
  LF ends it, and empty tokens are dropped.
\<close>

fun split_tok :: "string \<Rightarrow> string \<Rightarrow> string list" where
  "split_tok cur [] = (if cur = [] then [] else [cur])"
| "split_tok cur (c # cs) =
     (if is_delim c then (if cur = [] then split_tok [] cs else cur # split_tok [] cs)
      else split_tok (cur @ [c]) cs)"

text \<open>The bytes that a receive script delivers, in order.\<close>

fun rx_bytes :: "char option list \<Rightarrow> string" where
  "rx_bytes [] = []"
| "rx_bytes (None # r) = rx_bytes r"
| "rx_bytes (Some c # r) = c # rx_bytes r"

text \<open>What the backlog stores for a byte.\<close>

definition stored :: "char \<Rightarrow> char" where
  "stored c = (if c = NUL then CHR ''0'' else c)"

text \<open>The backlog is in step: the counter is the number of bytes held, none of them NUL.\<close>

definition backlog_ok :: "lara \<Rightarrow> bool" where
  "backlog_ok s \<longleftrightarrow>
     laraResponseBacklogLength s = length (laraResponseBacklog s)
     \<and> NUL \<notin> set (laraResponseBacklog s)"

text \<open>The twelve URC tags, and a line re-terminated.\<close>

definition URC_tags :: "string list" where
  "URC_tags =
     [LARA_R6_READ_SOCKET_URC, LARA_R6_READ_UDP_SOCKET_URC, LARA_R6_LISTEN_SOCKET_URC,
      LARA_R6_CLOSE_SOCKET_URC, LARA_R6_GNSS_REQUEST_LOCATION_URC, LARA_R6_SIM_STATE_URC,
      LARA_R6_HTTP_COMMAND_URC, LARA_R6_MQTT_COMMAND_URC, LARA_R6_PING_COMMAND_URC,
      LARA_R6_REGISTRATION_STATUS_URC, LARA_R6_EPSREGISTRATION_STATUS_URC,
      LARA_R6_FTP_COMMAND_URC]"

definition lines_of :: "string list \<Rightarrow> string" where
  "lines_of es = concat (map (\<lambda>e. e @ CRLF) es)"

text \<open>The events that \<open>pruneBacklog\<close> keeps of a buffer.\<close>

definition kept :: "string \<Rightarrow> string list" where
  "kept buf = filter actionable (strtok_all (c_str buf))"

text \<open>
  The backlog holds a NUL within its array, and the lines that \<open>pruneBacklog\<close> keeps, each
  with its CR LF and the NUL that ends them all, have room in \<open>_pruneBuffer\<close>.
\<close>

definition prune_fits :: "string \<Rightarrow> bool" where
  "prune_fits buf \<longleftrightarrow>
     length (c_str buf) < RXBuffSize \<and> length (lines_of (kept buf)) < RXBuffSize"

text \<open>
  The reading of the specification: a notification line begins with one of the tags.
\<close>

definition begins_with_tag :: "string \<Rightarrow> bool" where
  "begins_with_tag line = list_ex (\<lambda>t. prefix t line) URC_tags"

text \<open>A session as the constructor leaves it, and one with a given backlog.\<close>

definition lara_init :: lara where
  "lara_init =
     \<lparr>laraResponseBacklog = [], laraResponseBacklogLength = 0,
      bufferedPollReentrant = False, lastSocketProtocol = [0, 0, 0, 0, 0, 0],
      lastLocalIP = [0, 0, 0, 0], lastRemoteIP = [0, 0, 0, 0],
      callbacks = (\<lambda>cb. None)\<rparr>"

definition with_backlog :: "string \<Rightarrow> lara" where
  "with_backlog b =
     lara_init\<lparr>laraResponseBacklog := b, laraResponseBacklogLength := length b\<rparr>"

text \<open>The bytes mirrored into the backlog, one \<open>backlog_put\<close> after the other.\<close>

fun mirror :: "string \<Rightarrow> lara \<Rightarrow> lara" where
  "mirror [] s = s"
| "mirror (c # cs) s = mirror cs (backlog_put c s)"

text \<open>
  The wait loops seen from the bytes they read: the body once for every byte, and no
  byte is read once \<open>found\<close> is set (\<open>None\<close>).
\<close>

fun wait_run :: "string \<Rightarrow> string \<Rightarrow> wait_vars \<Rightarrow> string \<Rightarrow> wait_vars option" where
  "wait_run expectedResponse expectedError v [] = Some v"
| "wait_run expectedResponse expectedError v (c # cs) =
     (if found v then None
      else wait_run expectedResponse expectedError
             (match_error expectedError c (match_response expectedResponse c v)) cs)"

fun cmd_run :: "string \<Rightarrow> string \<Rightarrow> int \<Rightarrow> cmd_vars \<Rightarrow> string \<Rightarrow> cmd_vars option" where
  "cmd_run expectedResponse expectedError destSize v [] = Some v"
| "cmd_run expectedResponse expectedError destSize v (c # cs) =
     (if found v then None
      else cmd_run expectedResponse expectedError destSize
             (cmd_body expectedResponse expectedError destSize c v) cs)"

text \<open>
  The index of one pattern after a byte, as both loops compute it, and the pattern
  completed by the last byte of a sequence read from index 0.
\<close>

definition advance :: "string \<Rightarrow> nat \<Rightarrow> char \<Rightarrow> nat" where
  "advance pattern index c =
     (if index < length pattern \<and> c = pattern ! index then index + 1
      else if index < length pattern \<and> c = pattern ! 0 then 1 else 0)"


section \<open>The terminator matcher as the specification words it\<close>







text \<open>A port script: the clock readings and the bytes that arrive, nothing written yet.\<close>

definition port :: "u32 list \<Rightarrow> char option list \<Rightarrow> hw" where
  "port ck r = \<lparr>clock = ck, rx = r, tx = [], wire = []\<rparr>"

section \<open>Notions for the dispatch of events\<close>

text \<open>A call of \<open>bufferedPoll\<close> that returns false at once and changes nothing.\<close>

definition no_poll :: poll where
  "no_poll h s = Some (Inr (False, h, s))"

text \<open>
  The application is quiet: the callbacks registered and the two programs that read a
  socket return without a call of the driver.
\<close>

definition quiet :: "socket_reads \<Rightarrow> lara \<Rightarrow> bool" where
  "quiet reads s \<longleftrightarrow>
     (\<forall>cb f args. callbacks s cb = Some f \<longrightarrow> f args = Return)
     \<and> (\<forall>socket len. socketRead reads socket len = Return)
     \<and> (\<forall>socket len. socketReadUDP reads socket len = Return)"

text \<open>
  What the blocks of \<open>processURCEvent\<close> return and call for a list of events, one after
  the other: whether one of them was handled, and every event with the call made for it.
\<close>

fun dispatch :: "lara \<Rightarrow> string list \<Rightarrow> fault + bool \<times> (string \<times> urc_call option) list" where
  "dispatch s [] = Inr (False, [])"
| "dispatch s (event # events) =
     (case processURCEvent_blocks s event of
        Inl f \<Rightarrow> Inl f
      | Inr (latestHandled, called) \<Rightarrow>
          (case dispatch s events of
             Inl f \<Rightarrow> Inl f
           | Inr (handled, calls) \<Rightarrow> Inr (latestHandled \<or> handled, (event, called) # calls)))"

section \<open>Facts about the string functions\<close>

lemma is_delim_CR [simp]: "is_delim CR"
  by (simp add: is_delim_def)

lemma is_delim_LF [simp]: "is_delim LF"
  by (simp add: is_delim_def)

lemma not_null_simps [simp]: "not_null None = False" "not_null (Some x) = True"
  by (simp_all add: not_null_def)

lemma strstr_sublist: "not_null (strstr hay needle) \<longleftrightarrow> sublist needle hay"
proof (induction hay)
  case Nil
  then show ?case by simp
next
  case (Cons h hs)
  show ?case
  proof (cases "prefix needle (h # hs)")
    case True
    then show ?thesis by (auto simp: sublist_Cons_right)
  next
    case False
    with Cons show ?thesis by (simp add: sublist_Cons_right)
  qed
qed

lemma actionable_iff: "actionable e \<longleftrightarrow> (\<exists>t\<in>set URC_tags. sublist t e)"
  by (simp add: actionable_def URC_tags_def strstr_sublist)

lemma strtok_r_Nil [simp]: "strtok_r [] = None"
  by (simp add: strtok_r_def)

lemma strtok_r_delim [simp]: "is_delim d \<Longrightarrow> strtok_r (d # str) = strtok_r str"
  by (simp add: strtok_r_def)

lemma strtok_r_token:
  assumes "e \<noteq> []" "\<forall>c\<in>set e. \<not> is_delim c" "is_delim d"
  shows "strtok_r (e @ d # rest) = Some (e, rest)"
proof -
  from assms obtain x xs where e: "e = x # xs" by (cases e) auto
  with assms have "dropWhile is_delim (e @ d # rest) = e @ d # rest" by simp
  moreover from assms have "takeWhile (\<lambda>c. \<not> is_delim c) (e @ d # rest) = e"
    by (simp add: takeWhile_append2)
  moreover from assms have "dropWhile (\<lambda>c. \<not> is_delim c) (e @ d # rest) = d # rest"
    by (simp add: dropWhile_append2)
  ultimately show ?thesis using e by (simp add: strtok_r_def)
qed

lemma strtok_r_last:
  assumes "e \<noteq> []" "\<forall>c\<in>set e. \<not> is_delim c"
  shows "strtok_r e = Some (e, [])"
proof -
  from assms obtain x xs where e: "e = x # xs" by (cases e) auto
  with assms have "dropWhile is_delim e = e" by simp
  moreover from assms have "takeWhile (\<lambda>c. \<not> is_delim c) e = e" by simp
  moreover from assms have "dropWhile (\<lambda>c. \<not> is_delim c) e = []" by simp
  ultimately show ?thesis using e by (simp add: strtok_r_def)
qed

lemma strtok_r_SomeD:
  assumes "strtok_r str = Some (e, rest)"
  shows "e \<noteq> [] \<and> (\<forall>c\<in>set e. \<not> is_delim c) \<and> set e \<subseteq> set str \<and> set rest \<subseteq> set str"
proof -
  let ?s1 = "dropWhile is_delim str"
  from assms have ne: "?s1 \<noteq> []" and e: "e = takeWhile (\<lambda>c. \<not> is_delim c) ?s1"
    and r: "rest = drop 1 (dropWhile (\<lambda>c. \<not> is_delim c) ?s1)"
    by (auto simp: strtok_r_def Let_def split: if_splits)
  from ne have "\<not> is_delim (hd ?s1)" using hd_dropWhile by blast
  with ne e have "e \<noteq> []" by (cases ?s1) auto
  moreover from e have "\<forall>c\<in>set e. \<not> is_delim c" by (auto dest: set_takeWhileD)
  moreover have s1: "set ?s1 \<subseteq> set str" by (auto dest: set_dropWhileD)
  moreover from e have "set e \<subseteq> set ?s1" by (auto dest: set_takeWhileD)
  moreover from r have "set rest \<subseteq> set ?s1"
    by (auto dest!: in_set_dropD set_dropWhileD)
  ultimately show ?thesis by blast
qed

lemma strtok_all_Nil [simp]: "strtok_all [] = []"
  by (simp add: strtok_all.simps)

lemma strtok_all_delim [simp]: "is_delim d \<Longrightarrow> strtok_all (d # str) = strtok_all str"
  by (subst strtok_all.simps, subst (2) strtok_all.simps) simp

lemma strtok_all_token:
  "e \<noteq> [] \<Longrightarrow> \<forall>c\<in>set e. \<not> is_delim c \<Longrightarrow> is_delim d \<Longrightarrow>
   strtok_all (e @ d # rest) = e # strtok_all rest"
  by (subst strtok_all.simps) (simp add: strtok_r_token)

lemma strtok_all_single:
  "e \<noteq> [] \<Longrightarrow> \<forall>c\<in>set e. \<not> is_delim c \<Longrightarrow> strtok_all e = [e]"
  by (subst strtok_all.simps) (simp add: strtok_r_last)

lemma strtok_all_line:
  "e \<noteq> [] \<Longrightarrow> \<forall>c\<in>set e. \<not> is_delim c \<Longrightarrow>
   strtok_all (e @ CRLF @ rest) = e # strtok_all rest"
  by (simp add: CRLF_def strtok_all_token)

lemma strtok_all_tokens:
  "t \<in> set (strtok_all str) \<Longrightarrow>
   t \<noteq> [] \<and> (\<forall>c\<in>set t. \<not> is_delim c) \<and> set t \<subseteq> set str"
proof (induction str arbitrary: t rule: strtok_all.induct)
  case (1 str)
  show ?case
  proof (cases "strtok_r str")
    case None
    with "1.prems" show ?thesis by (simp add: strtok_all.simps)
  next
    case (Some p)
    obtain e rest where p: "p = (e, rest)" by (cases p)
    from Some p have D: "e \<noteq> [] \<and> (\<forall>c\<in>set e. \<not> is_delim c) \<and> set e \<subseteq> set str \<and> set rest \<subseteq> set str"
      by (simp add: strtok_r_SomeD)
    from "1.prems" Some p have "t = e \<or> t \<in> set (strtok_all rest)"
      by (subst (asm) strtok_all.simps) simp
    then show ?thesis
    proof
      assume "t = e" with D show ?thesis by simp
    next
      assume "t \<in> set (strtok_all rest)"
      from "1.IH" [OF Some p [symmetric] this] D show ?thesis by blast
    qed
  qed
qed


lemma length_lines_of: "length (lines_of es) = sum_list (map (\<lambda>e. length e + 2) es)"
  by (induction es) (simp_all add: CRLF_def lines_of_def)

lemma set_lines_of: "set (lines_of es) \<subseteq> \<Union> (set ` set es) \<union> {CR, LF}"
  by (induction es) (auto simp: CRLF_def lines_of_def)

section \<open>The pruner in closed form\<close>

lemma strcat_Inr: "length d + length x < n \<Longrightarrow> strcat n d x = Inr (d @ x)"
  by (simp add: strcat_def)

lemma strcat_Inl: "\<not> length d + length x < n \<Longrightarrow> strcat n d x = Inl (Overrun (length d + length x))"
  by (simp add: strcat_def)

lemma prune_loop_fits:
  "length pb + length (lines_of (filter actionable (strtok_all str))) < RXBuffSize \<Longrightarrow>
   prune_loop str pb len =
     Inr (pb @ lines_of (filter actionable (strtok_all str)),
          len + length (lines_of (filter actionable (strtok_all str))))"
proof (induction str pb len rule: prune_loop.induct)
  case (1 str pb len)
  show ?case
  proof (cases "strtok_r str")
    case None
    then show ?thesis
      by (simp add: prune_loop.simps [of str] strtok_all.simps [of str] lines_of_def)
  next
    case (Some p)
    obtain e rest where p: "p = (e, rest)" by (cases p)
    show ?thesis
    proof (cases "actionable e")
      case True
      from "1.prems" Some p True
      have fit: "length pb + (length e + 2)
                   + length (lines_of (filter actionable (strtok_all rest))) < RXBuffSize"
        by (simp add: strtok_all.simps [of str] lines_of_def CRLF_def)
      then have c1: "strcat RXBuffSize pb e = Inr (pb @ e)"
        and c2: "strcat RXBuffSize (pb @ e) CRLF = Inr (pb @ e @ CRLF)"
        by (simp_all add: strcat_def CRLF_def)
      from fit have "length (pb @ e @ CRLF)
                   + length (lines_of (filter actionable (strtok_all rest))) < RXBuffSize"
        by (simp add: CRLF_def)
      from "1.IH"(1) [OF Some p [symmetric] True c1 c2 this] Some p True c1 c2 show ?thesis
        by (simp add: prune_loop.simps [of str] strtok_all.simps [of str] lines_of_def CRLF_def)
    next
      case False
      from "1.prems" Some p False
      have "length pb + length (lines_of (filter actionable (strtok_all rest))) < RXBuffSize"
        by (simp add: strtok_all.simps [of str])
      from "1.IH"(2) [OF Some p [symmetric] False this] Some p False show ?thesis
        by (simp add: prune_loop.simps [of str] strtok_all.simps [of str])
    qed
  qed
qed

lemma prune_loop_overrun:
  "length pb < RXBuffSize \<Longrightarrow>
   \<not> length pb + length (lines_of (filter actionable (strtok_all str))) < RXBuffSize \<Longrightarrow>
   \<exists>n\<ge>RXBuffSize. prune_loop str pb len = Inl (Overrun n)"
proof (induction str pb len rule: prune_loop.induct)
  case (1 str pb len)
  show ?case
  proof (cases "strtok_r str")
    case None
    with "1.prems" show ?thesis
      by (simp add: strtok_all.simps [of str] lines_of_def)
  next
    case (Some p)
    obtain e rest where p: "p = (e, rest)" by (cases p)
    show ?thesis
    proof (cases "actionable e")
      case act: True
      show ?thesis
      proof (cases "length pb + length e < RXBuffSize")
        case False
        with Some p act show ?thesis
          by (simp add: prune_loop.simps [of str] strcat_def)
      next
        case f1: True
        then have c1: "strcat RXBuffSize pb e = Inr (pb @ e)" by (simp add: strcat_def)
        show ?thesis
        proof (cases "length (pb @ e) + length CRLF < RXBuffSize")
          case False
          with Some p act c1 show ?thesis
            by (simp add: prune_loop.simps [of str] strcat_def)
        next
          case f2: True
          then have c2: "strcat RXBuffSize (pb @ e) CRLF = Inr (pb @ e @ CRLF)"
            by (simp add: strcat_def)
          from f2 have l: "length (pb @ e @ CRLF) < RXBuffSize" by simp
          from "1.prems"(2) Some p act
          have "\<not> length (pb @ e @ CRLF)
                   + length (lines_of (filter actionable (strtok_all rest))) < RXBuffSize"
            by (simp add: strtok_all.simps [of str] lines_of_def CRLF_def)
          from "1.IH"(1) [OF Some p [symmetric] act c1 c2 l this] Some p act c1 c2
          show ?thesis by (simp add: prune_loop.simps [of str])
        qed
      qed
    next
      case False
      from "1.prems"(2) Some p False
      have "\<not> length pb + length (lines_of (filter actionable (strtok_all rest))) < RXBuffSize"
        by (simp add: strtok_all.simps [of str])
      from "1.IH"(2) [OF Some p [symmetric] False "1.prems"(1) this] Some p False show ?thesis
        by (simp add: prune_loop.simps [of str])
    qed
  qed
qed

text \<open>
  The pruner is defined when the backlog holds a NUL within its array and the lines it
  keeps, each with its CR LF, fit \<open>_pruneBuffer\<close> with the NUL that ends them.
\<close>

lemma pruneBacklog_fits:
  "prune_fits (laraResponseBacklog s) \<Longrightarrow>
   pruneBacklog s =
     Inr (s\<lparr>laraResponseBacklog := lines_of (kept (laraResponseBacklog s)),
            laraResponseBacklogLength := length (lines_of (kept (laraResponseBacklog s)))\<rparr>)"
  by (simp add: pruneBacklog_def buffer_str_def prune_fits_def kept_def prune_loop_fits)

lemma pruneBacklog_unfit:
  "\<not> prune_fits (laraResponseBacklog s) \<Longrightarrow> \<exists>f. pruneBacklog s = Inl f"
proof (cases "length (c_str (laraResponseBacklog s)) < RXBuffSize")
  case False
  then show ?thesis by (simp add: pruneBacklog_def buffer_str_def)
next
  case True
  assume "\<not> prune_fits (laraResponseBacklog s)"
  with True have ov: "\<not> length ([] :: string) + length (lines_of (filter actionable
                        (strtok_all (c_str (laraResponseBacklog s))))) < RXBuffSize"
    by (simp add: prune_fits_def kept_def)
  have "length ([] :: string) < RXBuffSize" by (simp add: RXBuffSize_def)
  from prune_loop_overrun [OF this ov, of 0] obtain n where
    "prune_loop (c_str (laraResponseBacklog s)) [] 0 = Inl (Overrun n)"
    by blast
  with True show ?thesis by (simp add: pruneBacklog_def buffer_str_def)
qed

lemma pruneBacklog_InrD:
  assumes "pruneBacklog s = Inr s'"
  shows "prune_fits (laraResponseBacklog s)"
    and "s' = s\<lparr>laraResponseBacklog := lines_of (kept (laraResponseBacklog s)),
                 laraResponseBacklogLength := length (lines_of (kept (laraResponseBacklog s)))\<rparr>"
proof -
  show f: "prune_fits (laraResponseBacklog s)"
    using assms pruneBacklog_unfit [of s] by (cases "prune_fits (laraResponseBacklog s)") auto
  from pruneBacklog_fits [OF f] assms
  show "s' = s\<lparr>laraResponseBacklog := lines_of (kept (laraResponseBacklog s)),
                 laraResponseBacklogLength := length (lines_of (kept (laraResponseBacklog s)))\<rparr>"
    by simp
qed

lemma c_str_id: "NUL \<notin> set buf \<Longrightarrow> c_str buf = buf"
  by (auto simp: c_str_def takeWhile_eq_all_conv)

lemma NUL_notin_c_str: "NUL \<notin> set (c_str buf)"
  by (auto simp: c_str_def dest: set_takeWhileD)

lemma NUL_not_delim: "NUL \<noteq> CR" "NUL \<noteq> LF"
  by (simp_all add: NUL_def CR_def LF_def)

lemma kept_tokens:
  "e \<in> set (kept buf) \<Longrightarrow>
   e \<noteq> [] \<and> (\<forall>c\<in>set e. \<not> is_delim c) \<and> NUL \<notin> set e \<and> actionable e"
  using strtok_all_tokens [of e "c_str buf"] NUL_notin_c_str [of buf]
  by (auto simp: kept_def)

lemma NUL_notin_lines_kept: "NUL \<notin> set (lines_of (kept buf))"
proof
  assume "NUL \<in> set (lines_of (kept buf))"
  with set_lines_of [of "kept buf"] have "\<exists>e\<in>set (kept buf). NUL \<in> set e"
    using NUL_not_delim by auto
  then show False using kept_tokens by blast
qed


lemma kept_line: 
  "e \<noteq> [] \<Longrightarrow> \<forall>c\<in>set e. \<not> is_delim c \<and> c \<noteq> NUL \<Longrightarrow> kept (e @ CRLF) = (if actionable e then [e] else [])"
proof -
  assume ne: "e \<noteq> []" and cs: "\<forall>c\<in>set e. \<not> is_delim c \<and> c \<noteq> NUL"
  from cs have "NUL \<notin> set (e @ CRLF)"
    using NUL_not_delim by (auto simp: CRLF_def)
  then have "c_str (e @ CRLF) = e @ CRLF" by (rule c_str_id)
  moreover from ne cs have "strtok_all (e @ CRLF @ []) = e # strtok_all []"
    by (intro strtok_all_line) auto
  ultimately show ?thesis by (simp add: kept_def)
qed

section \<open>Facts about the port\<close>

lemma millis_SomeD:
  "millis h = Some (t, h1) \<Longrightarrow>
   clock h = t # clock h1 \<and> rx h1 = rx h \<and> tx h1 = tx h \<and> wire h1 = wire h"
  by (auto simp: millis_def split: list.splits)

lemma hwAvailable_TrueD:
  "hwAvailable h = (True, h1) \<Longrightarrow> h1 = h \<and> (\<exists>c r. rx h = Some c # r)"
  by (auto simp: hwAvailable_def split: list.splits option.splits)

lemma hwAvailable_FalseD:
  "hwAvailable h = (False, h1) \<Longrightarrow>
   rx_bytes (rx h1) = rx_bytes (rx h) \<and> tx h1 = tx h \<and> clock h1 = clock h \<and> wire h1 = wire h"
  by (auto simp: hwAvailable_def split: list.splits option.splits)

lemma readChar_SomeD:
  "rx h = Some c # r \<Longrightarrow> readChar h = (c', h1) \<Longrightarrow>
   c' = c \<and> rx h1 = r \<and> tx h1 = tx h \<and> clock h1 = clock h \<and> wire h1 = wire h @ [Rx c]"
  by (auto simp: readChar_def)

lemma mirror_append: "mirror (bs @ cs) s = mirror cs (mirror bs s)"
  by (induction bs arbitrary: s) simp_all

section \<open>The wait loops read bytes in order\<close>

lemma wait_loop_run:
  "wait_loop r e timeIn timeout v h s = Some (v', h', s') \<Longrightarrow>
   \<exists>bs. rx_bytes (rx h) = bs @ rx_bytes (rx h') \<and> wait_run r e v bs = Some v'
        \<and> s' = mirror bs s \<and> tx h' = tx h \<and> wire h' = wire h @ map Rx bs"
proof (induction r e timeIn timeout v h s rule: wait_loop.induct)
  case (1 r e timeIn timeout v h s)
  show ?case
  proof (cases "found v")
    case True
    with "1.prems" have "v' = v" "h' = h" "s' = s"
      by (simp_all add: wait_loop.simps [of r e timeIn timeout v h s])
    then show ?thesis by (intro exI [of _ "[]"]) simp
  next
    case nf: False
    from "1.prems" nf obtain now h1 where m: "millis h = Some (now, h1)"
      by (auto simp: wait_loop.simps [of r e timeIn timeout v h s] split: option.splits)
    note mD = millis_SomeD [OF m]
    show ?thesis
    proof (cases "now < timeIn + timeout")
      case False
      with "1.prems" nf m have "v' = v" "h' = h1" "s' = s"
        by (simp_all add: wait_loop.simps [of r e timeIn timeout v h s])
      with mD show ?thesis by (intro exI [of _ "[]"]) simp
    next
      case lt: True
      obtain avail h2 where a: "hwAvailable h1 = (avail, h2)" by (cases "hwAvailable h1")
      show ?thesis
      proof (cases avail)
        case True
        with a have "hwAvailable h1 = (True, h2)" by simp
        from hwAvailable_TrueD [OF this]
        have h2: "h2 = h1" and "\<exists>c r. rx h1 = Some c # r" by simp_all
        then obtain c rr where rx1: "rx h1 = Some c # rr" by blast
        obtain c' h3 where rc: "readChar h2 = (c', h3)" by (cases "readChar h2")
        from readChar_SomeD [OF _ rc] rx1 h2
        have c': "c' = c" and rx3: "rx h3 = rr" and tx3: "tx h3 = tx h1"
          and w3: "wire h3 = wire h1 @ [Rx c]" by simp_all
        from "1.prems" nf m lt a True rc
        have run: "wait_loop r e timeIn timeout (match_error e c' (match_response r c' v)) h3
                     (backlog_put c' s) = Some (v', h', s')"
          by (simp add: wait_loop.simps [of r e timeIn timeout v h s])
        from "1.IH"(1) [OF nf m refl lt a [symmetric] True rc [symmetric] run]
        obtain bs where bs: "rx_bytes (rx h3) = bs @ rx_bytes (rx h')"
          "wait_run r e (match_error e c' (match_response r c' v)) bs = Some v'"
          "s' = mirror bs (backlog_put c' s)" "tx h' = tx h3"
          "wire h' = wire h3 @ map Rx bs"
          by blast
        from mD rx1 have rxh: "rx h = Some c # rr" by simp
        from mD tx3 bs(4) have txh: "tx h' = tx h" by simp
        from mD w3 bs(5) have wh: "wire h' = wire h @ map Rx (c # bs)" by simp
        from bs(1) rx3 have "rx_bytes (rx h) = (c # bs) @ rx_bytes (rx h')"
          by (simp add: rxh)
        moreover from bs(2) nf c' have "wait_run r e v (c # bs) = Some v'" by simp
        moreover from bs(3) c' have "s' = mirror (c # bs) s" by simp
        ultimately show ?thesis using txh wh by blast
      next
        case False
        with a have "hwAvailable h1 = (False, h2)" by simp
        from hwAvailable_FalseD [OF this]
        have fD: "rx_bytes (rx h2) = rx_bytes (rx h1)" "tx h2 = tx h1" "wire h2 = wire h1"
          by simp_all
        from "1.prems" nf m lt a False
        have run: "wait_loop r e timeIn timeout v h2 s = Some (v', h', s')"
          by (simp add: wait_loop.simps [of r e timeIn timeout v h s])
        from "1.IH"(2) [OF nf m refl lt a [symmetric] False run]
        obtain bs where "rx_bytes (rx h2) = bs @ rx_bytes (rx h')"
          "wait_run r e v bs = Some v'" "s' = mirror bs s" "tx h' = tx h2"
          "wire h' = wire h2 @ map Rx bs"
          by blast
        with fD mD show ?thesis by (intro exI [of _ bs]) simp
      qed
    qed
  qed
qed

lemma cmd_loop_run:
  "cmd_loop r e timeIn timeout n v h s = Some (v', h', s') \<Longrightarrow>
   \<exists>bs. rx_bytes (rx h) = bs @ rx_bytes (rx h') \<and> cmd_run r e n v bs = Some v'
        \<and> s' = mirror bs s \<and> tx h' = tx h \<and> wire h' = wire h @ map Rx bs"
proof (induction r e timeIn timeout n v h s rule: cmd_loop.induct)
  case (1 r e timeIn timeout n v h s)
  show ?case
  proof (cases "found v")
    case True
    with "1.prems" have "v' = v" "h' = h" "s' = s"
      by (simp_all add: cmd_loop.simps [of r e timeIn timeout n v h s])
    then show ?thesis by (intro exI [of _ "[]"]) simp
  next
    case nf: False
    from "1.prems" nf obtain now h1 where m: "millis h = Some (now, h1)"
      by (auto simp: cmd_loop.simps [of r e timeIn timeout n v h s] split: option.splits)
    note mD = millis_SomeD [OF m]
    show ?thesis
    proof (cases "now < timeIn + timeout")
      case False
      with "1.prems" nf m have "v' = v" "h' = h1" "s' = s"
        by (simp_all add: cmd_loop.simps [of r e timeIn timeout n v h s])
      with mD show ?thesis by (intro exI [of _ "[]"]) simp
    next
      case lt: True
      obtain avail h2 where a: "hwAvailable h1 = (avail, h2)" by (cases "hwAvailable h1")
      show ?thesis
      proof (cases avail)
        case True
        with a have "hwAvailable h1 = (True, h2)" by simp
        from hwAvailable_TrueD [OF this]
        have h2: "h2 = h1" and "\<exists>c r. rx h1 = Some c # r" by simp_all
        then obtain c rr where rx1: "rx h1 = Some c # rr" by blast
        obtain c' h3 where rc: "readChar h2 = (c', h3)" by (cases "readChar h2")
        from readChar_SomeD [OF _ rc] rx1 h2
        have c': "c' = c" and rx3: "rx h3 = rr" and tx3: "tx h3 = tx h1"
          and w3: "wire h3 = wire h1 @ [Rx c]" by simp_all
        from "1.prems" nf m lt a True rc
        have run: "cmd_loop r e timeIn timeout n (cmd_body r e n c' v) h3
                     (backlog_put c' s) = Some (v', h', s')"
          by (simp add: cmd_loop.simps [of r e timeIn timeout n v h s])
        from "1.IH"(1) [OF nf m refl lt a [symmetric] True rc [symmetric] run]
        obtain bs where bs: "rx_bytes (rx h3) = bs @ rx_bytes (rx h')"
          "cmd_run r e n (cmd_body r e n c' v) bs = Some v'"
          "s' = mirror bs (backlog_put c' s)" "tx h' = tx h3"
          "wire h' = wire h3 @ map Rx bs"
          by blast
        from mD rx1 have rxh: "rx h = Some c # rr" by simp
        from mD tx3 bs(4) have txh: "tx h' = tx h" by simp
        from mD w3 bs(5) have wh: "wire h' = wire h @ map Rx (c # bs)" by simp
        from bs(1) rx3 have "rx_bytes (rx h) = (c # bs) @ rx_bytes (rx h')"
          by (simp add: rxh)
        moreover from bs(2) nf c' have "cmd_run r e n v (c # bs) = Some v'" by simp
        moreover from bs(3) c' have "s' = mirror (c # bs) s" by simp
        ultimately show ?thesis using txh wh by blast
      next
        case False
        with a have "hwAvailable h1 = (False, h2)" by simp
        from hwAvailable_FalseD [OF this]
        have fD: "rx_bytes (rx h2) = rx_bytes (rx h1)" "tx h2 = tx h1" "wire h2 = wire h1"
          by simp_all
        from "1.prems" nf m lt a False
        have run: "cmd_loop r e timeIn timeout n v h2 s = Some (v', h', s')"
          by (simp add: cmd_loop.simps [of r e timeIn timeout n v h s])
        from "1.IH"(2) [OF nf m refl lt a [symmetric] False run]
        obtain bs where "rx_bytes (rx h2) = bs @ rx_bytes (rx h')"
          "cmd_run r e n v bs = Some v'" "s' = mirror bs s" "tx h' = tx h2"
          "wire h' = wire h2 @ map Rx bs"
          by blast
        with fD mD show ?thesis by (intro exI [of _ bs]) simp
      qed
    qed
  qed
qed

section \<open>The locals of the wait loops\<close>















section \<open>The loops against the matcher of the specification\<close>





section \<open>The drain before a command is sent\<close>

lemma stored_not_NUL [simp]: "stored c \<noteq> NUL"
  by (simp add: stored_def NUL_def)

lemma drain_loop_run:
  "drain_loop timeIn h s = Some (h', s') \<Longrightarrow>
   \<exists>ds. rx_bytes (rx h) = ds @ rx_bytes (rx h') \<and> tx h' = tx h
        \<and> wire h' = wire h @ map Rx ds
        \<and> s' = s\<lparr>laraResponseBacklog := laraResponseBacklog s @ map stored ds,
                  laraResponseBacklogLength := laraResponseBacklogLength s + length ds\<rparr>
        \<and> (ds \<noteq> [] \<longrightarrow> laraResponseBacklogLength s + length ds \<le> RXBuffSize)"
proof (induction timeIn h s rule: drain_loop.induct)
  case (1 timeIn h s)
  from "1.prems" obtain now h1 where m: "millis h = Some (now, h1)"
    by (auto simp: drain_loop.simps [of timeIn h s] split: option.splits)
  note mD = millis_SomeD [OF m]
  show ?case
  proof (cases "now - timeIn < rxWindowMillis \<and> laraResponseBacklogLength s < RXBuffSize")
    case False
    with "1.prems" m have "h' = h1" "s' = s"
      by (auto simp: drain_loop.simps [of timeIn h s])
    with mD show ?thesis by (intro exI [of _ "[]"]) simp
  next
    case c: True
    obtain avail h2 where a: "hwAvailable h1 = (avail, h2)" by (cases "hwAvailable h1")
    show ?thesis
    proof (cases avail)
      case True
      with a have "hwAvailable h1 = (True, h2)" by simp
      from hwAvailable_TrueD [OF this]
      have h2: "h2 = h1" and "\<exists>c r. rx h1 = Some c # r" by simp_all
      then obtain c rr where rx1: "rx h1 = Some c # rr" by blast
      obtain c' h3 where rc: "readChar h2 = (c', h3)" by (cases "readChar h2")
      from readChar_SomeD [OF _ rc] rx1 h2
      have c': "c' = c" and rx3: "rx h3 = rr" and tx3: "tx h3 = tx h1"
        and w3: "wire h3 = wire h1 @ [Rx c]" by simp_all
      let ?s2 = "s\<lparr>laraResponseBacklog := laraResponseBacklog s @ [if c' = NUL then CHR ''0'' else c'],
                    laraResponseBacklogLength := laraResponseBacklogLength s + 1\<rparr>"
      from "1.prems" m c a True rc obtain t' h4 where m3: "millis h3 = Some (t', h4)"
        and run: "drain_loop t' h4 ?s2 = Some (h', s')"
        by (auto simp: drain_loop.simps [of timeIn h s] split: option.splits)
      note m3D = millis_SomeD [OF m3]
      from "1.IH"(1) [OF m refl c a [symmetric] True rc [symmetric] m3 refl run]
      obtain ds where ds: "rx_bytes (rx h4) = ds @ rx_bytes (rx h')" "tx h' = tx h4"
        "wire h' = wire h4 @ map Rx ds"
        "s' = ?s2\<lparr>laraResponseBacklog := laraResponseBacklog ?s2 @ map stored ds,
                   laraResponseBacklogLength := laraResponseBacklogLength ?s2 + length ds\<rparr>"
        "ds \<noteq> [] \<longrightarrow> laraResponseBacklogLength ?s2 + length ds \<le> RXBuffSize"
        by blast
      from mD rx1 have rxh: "rx h = Some c # rr" by simp
      from ds(1) rx3 m3D have "rx_bytes (rx h) = (c # ds) @ rx_bytes (rx h')"
        by (simp add: rxh)
      moreover from ds(2) m3D tx3 mD have "tx h' = tx h" by simp
      moreover from ds(3) m3D w3 mD have "wire h' = wire h @ map Rx (c # ds)" by simp
      moreover from ds(4) c' 
      have "s' = s\<lparr>laraResponseBacklog := laraResponseBacklog s @ map stored (c # ds),
                    laraResponseBacklogLength := laraResponseBacklogLength s + length (c # ds)\<rparr>"
        by (simp add: stored_def)
      moreover from ds(5) c
      have "laraResponseBacklogLength s + length (c # ds) \<le> RXBuffSize"
        by (cases "ds = []") auto
      ultimately show ?thesis by blast
    next
      case False
      with a have "hwAvailable h1 = (False, h2)" by simp
      from hwAvailable_FalseD [OF this]
      have fD: "rx_bytes (rx h2) = rx_bytes (rx h1)" "tx h2 = tx h1" "wire h2 = wire h1"
        by simp_all
      from "1.prems" m c a False
      have run: "drain_loop timeIn h2 s = Some (h', s')"
        by (simp add: drain_loop.simps [of timeIn h s])
      from "1.IH"(2) [OF m refl c a [symmetric] False run]
      obtain ds where "rx_bytes (rx h2) = ds @ rx_bytes (rx h')" "tx h' = tx h2"
        "wire h' = wire h2 @ map Rx ds"
        "s' = s\<lparr>laraResponseBacklog := laraResponseBacklog s @ map stored ds,
                  laraResponseBacklogLength := laraResponseBacklogLength s + length ds\<rparr>"
        "ds \<noteq> [] \<longrightarrow> laraResponseBacklogLength s + length ds \<le> RXBuffSize"
        by blast
      with fD mD show ?thesis by (intro exI [of _ ds]) simp
    qed
  qed
qed

lemma sendCommand_run:
  assumes "sendCommand command at h s = Some (h', s')"
  shows "\<exists>ds. rx_bytes (rx h) = ds @ rx_bytes (rx h')
        \<and> s' = s\<lparr>laraResponseBacklog := laraResponseBacklog s @ map stored ds,
                  laraResponseBacklogLength := laraResponseBacklogLength s + length ds\<rparr>
        \<and> (ds \<noteq> [] \<longrightarrow> laraResponseBacklogLength s + length ds \<le> RXBuffSize)
        \<and> tx h' = tx h @ (if at then LARA_R6_COMMAND_AT @ command @ CRLF else command)
        \<and> wire h' = wire h @ map Rx ds
             @ map Tx (if at then LARA_R6_COMMAND_AT @ command @ CRLF else command)"
proof -
  from assms obtain timeIn h1 where m: "millis h = Some (timeIn, h1)"
    by (auto simp: sendCommand_def split: option.splits)
  note mD = millis_SomeD [OF m]
  obtain avail h2 where a: "hwAvailable h1 = (avail, h2)" by (cases "hwAvailable h1")
  show ?thesis
  proof (cases avail)
    case True
    with a have "hwAvailable h1 = (True, h2)" by simp
    from hwAvailable_TrueD [OF this] have h2: "h2 = h1" by simp
    from assms m a True obtain h3 where d: "drain_loop timeIn h2 s = Some (h3, s')"
      and h': "h' = (if at then hwPrint CRLF (hwPrint command (hwPrint LARA_R6_COMMAND_AT h3))
                     else hwPrint command h3)"
      by (auto simp: sendCommand_def split: option.splits)
    from drain_loop_run [OF d] obtain ds where
      ds: "rx_bytes (rx h2) = ds @ rx_bytes (rx h3)" "tx h3 = tx h2"
      "wire h3 = wire h2 @ map Rx ds"
      "s' = s\<lparr>laraResponseBacklog := laraResponseBacklog s @ map stored ds,
                laraResponseBacklogLength := laraResponseBacklogLength s + length ds\<rparr>"
      "ds \<noteq> [] \<longrightarrow> laraResponseBacklogLength s + length ds \<le> RXBuffSize"
      by blast
    from h' have "rx h' = rx h3" "tx h' = tx h3 @ (if at then LARA_R6_COMMAND_AT @ command @ CRLF else command)"
      "wire h' = wire h3 @ map Tx (if at then LARA_R6_COMMAND_AT @ command @ CRLF else command)"
      by (simp_all add: hwPrint_def)
    with ds h2 mD show ?thesis by (intro exI [of _ ds]) simp
  next
    case False
    with a have "hwAvailable h1 = (False, h2)" by simp
    from hwAvailable_FalseD [OF this]
    have fD: "rx_bytes (rx h2) = rx_bytes (rx h1)" "tx h2 = tx h1" "wire h2 = wire h1"
      by simp_all
    from assms m a False have s': "s' = s"
      and h': "h' = (if at then hwPrint CRLF (hwPrint command (hwPrint LARA_R6_COMMAND_AT h2))
                     else hwPrint command h2)"
      by (auto simp: sendCommand_def)
    from h' have "rx h' = rx h2" "tx h' = tx h2 @ (if at then LARA_R6_COMMAND_AT @ command @ CRLF else command)"
      "wire h' = wire h2 @ map Tx (if at then LARA_R6_COMMAND_AT @ command @ CRLF else command)"
      by (simp_all add: hwPrint_def)
    with fD mD s' show ?thesis by (intro exI [of _ "[]"]) simp
  qed
qed

lemma kept_Nil [simp]: "kept [] = []"
  by (simp add: kept_def c_str_def)

lemma prune_fits_Nil [simp]: "prune_fits []"
  by (simp add: prune_fits_def c_str_def lines_of_def RXBuffSize_def)

lemma pruneBacklog_lara_init [simp]: "pruneBacklog lara_init = Inr lara_init"
  by (simp add: pruneBacklog_fits lara_init_def lines_of_def)

section \<open>The transactions read bytes in order\<close>




lemma waitForResponse_end:
  assumes "waitForResponse r e timeout h s = Some x"
  shows "\<exists>bs v h'. rx_bytes (rx h) = bs @ rx_bytes (rx h') \<and> wait_run r e wait_init bs = Some v
           \<and> tx h' = tx h \<and> wire h' = wire h @ map Rx bs
           \<and> x = (case pruneBacklog (mirror bs s) of
                     Inl f \<Rightarrow> Inl f
                   | Inr s' \<Rightarrow>
                       Inr (if found v
                            then (if error v then LARA_R6_ERROR_ERROR else LARA_R6_ERROR_SUCCESS)
                            else LARA_R6_ERROR_NO_RESPONSE, h', s'))"
proof -
  from assms obtain timeIn h1 v h2 s2 where m: "millis h = Some (timeIn, h1)"
    and w: "wait_loop r e timeIn (ucast timeout) wait_init h1 s = Some (v, h2, s2)"
    and x: "x = (case pruneBacklog s2 of
                     Inl f \<Rightarrow> Inl f
                   | Inr s' \<Rightarrow>
                       Inr (if found v
                            then (if error v then LARA_R6_ERROR_ERROR else LARA_R6_ERROR_SUCCESS)
                            else LARA_R6_ERROR_NO_RESPONSE, h2, s'))"
    by (auto simp: waitForResponse_def split: option.splits sum.splits)
  from wait_loop_run [OF w] obtain bs where
    "rx_bytes (rx h1) = bs @ rx_bytes (rx h2)" "wait_run r e wait_init bs = Some v"
    "s2 = mirror bs s" "tx h2 = tx h1" "wire h2 = wire h1 @ map Rx bs"
    by blast
  with millis_SomeD [OF m] x show ?thesis
    by (intro exI [of _ bs] exI [of _ v] exI [of _ h2]) simp
qed

lemma waitForResponse_run:
  assumes "waitForResponse r e timeout h s = Some (Inr (res, h', s'))"
  shows "\<exists>bs v. rx_bytes (rx h) = bs @ rx_bytes (rx h') \<and> wait_run r e wait_init bs = Some v
           \<and> res = (if found v then (if error v then LARA_R6_ERROR_ERROR else LARA_R6_ERROR_SUCCESS)
                     else LARA_R6_ERROR_NO_RESPONSE)
           \<and> pruneBacklog (mirror bs s) = Inr s' \<and> tx h' = tx h
           \<and> wire h' = wire h @ map Rx bs"
proof -
  from waitForResponse_end [OF assms] obtain bs v h2 where
    a: "rx_bytes (rx h) = bs @ rx_bytes (rx h2)" "wait_run r e wait_init bs = Some v"
       "tx h2 = tx h" "wire h2 = wire h @ map Rx bs"
    and x: "Inr (res, h', s') = (case pruneBacklog (mirror bs s) of
                     Inl f \<Rightarrow> Inl f
                   | Inr s' \<Rightarrow>
                       Inr (if found v
                            then (if error v then LARA_R6_ERROR_ERROR else LARA_R6_ERROR_SUCCESS)
                            else LARA_R6_ERROR_NO_RESPONSE, h2, s'))"
    by blast
  from x have "h' = h2" "pruneBacklog (mirror bs s) = Inr s'"
    "res = (if found v then (if error v then LARA_R6_ERROR_ERROR else LARA_R6_ERROR_SUCCESS)
            else LARA_R6_ERROR_NO_RESPONSE)"
    by (auto split: sum.splits)
  with a show ?thesis by blast
qed

lemma sendCommandWithResponse_end:
  assumes "sendCommandWithResponse command expectedResponse hasDest commandTimeout destSize at h s
             = Some x"
  shows "\<exists>ds bs v s1 h'. rx_bytes (rx h) = ds @ bs @ rx_bytes (rx h')
           \<and> cmd_run (case expectedResponse of None \<Rightarrow> LARA_R6_RESPONSE_OK | Some r \<Rightarrow> r)
                      (case expectedResponse of None \<Rightarrow> LARA_R6_RESPONSE_ERROR | Some r \<Rightarrow> [])
                      destSize (cmd_init hasDest) bs = Some v
           \<and> s1 = s\<lparr>laraResponseBacklog := laraResponseBacklog s @ map stored ds,
                     laraResponseBacklogLength := laraResponseBacklogLength s + length ds\<rparr>
           \<and> (ds \<noteq> [] \<longrightarrow> laraResponseBacklogLength s + length ds \<le> RXBuffSize)
           \<and> tx h' = tx h @ (if at then LARA_R6_COMMAND_AT @ command @ CRLF else command)
           \<and> wire h' = wire h @ map Rx ds
                @ map Tx (if at then LARA_R6_COMMAND_AT @ command @ CRLF else command)
                @ map Rx bs
           \<and> x = (case pruneBacklog (mirror bs s1) of
                     Inl f \<Rightarrow> Inl f
                   | Inr s' \<Rightarrow>
                       Inr (if found v
                            then (if error v then LARA_R6_ERROR_ERROR else LARA_R6_ERROR_SUCCESS)
                            else if charsRead v = 0 then LARA_R6_ERROR_NO_RESPONSE
                            else LARA_R6_ERROR_UNEXPECTED_RESPONSE,
                            responseDest v, h', s'))"
proof -
  let ?r = "case expectedResponse of None \<Rightarrow> LARA_R6_RESPONSE_OK | Some r \<Rightarrow> r"
  let ?e = "case expectedResponse of None \<Rightarrow> LARA_R6_RESPONSE_ERROR | Some r \<Rightarrow> []"
  from assms obtain h1 s1 timeIn h2 v h3 s3 where sc: "sendCommand command at h s = Some (h1, s1)"
    and m: "millis h1 = Some (timeIn, h2)"
    and w: "cmd_loop ?r ?e timeIn commandTimeout destSize (cmd_init hasDest) h2 s1 = Some (v, h3, s3)"
    and x: "x = (case pruneBacklog s3 of
                     Inl f \<Rightarrow> Inl f
                   | Inr s' \<Rightarrow>
                       Inr (if found v
                            then (if error v then LARA_R6_ERROR_ERROR else LARA_R6_ERROR_SUCCESS)
                            else if charsRead v = 0 then LARA_R6_ERROR_NO_RESPONSE
                            else LARA_R6_ERROR_UNEXPECTED_RESPONSE,
                            responseDest v, h3, s'))"
    by (auto simp: sendCommandWithResponse_def split: option.splits sum.splits)
  from sendCommand_run [OF sc] obtain ds where ds: "rx_bytes (rx h) = ds @ rx_bytes (rx h1)"
    "s1 = s\<lparr>laraResponseBacklog := laraResponseBacklog s @ map stored ds,
              laraResponseBacklogLength := laraResponseBacklogLength s + length ds\<rparr>"
    "ds \<noteq> [] \<longrightarrow> laraResponseBacklogLength s + length ds \<le> RXBuffSize"
    "tx h1 = tx h @ (if at then LARA_R6_COMMAND_AT @ command @ CRLF else command)"
    "wire h1 = wire h @ map Rx ds
       @ map Tx (if at then LARA_R6_COMMAND_AT @ command @ CRLF else command)"
    by blast
  from cmd_loop_run [OF w] obtain bs where bs:
    "rx_bytes (rx h2) = bs @ rx_bytes (rx h3)" "cmd_run ?r ?e destSize (cmd_init hasDest) bs = Some v"
    "s3 = mirror bs s1" "tx h3 = tx h2" "wire h3 = wire h2 @ map Rx bs"
    by blast
  from ds(1) bs(1) millis_SomeD [OF m] have "rx_bytes (rx h) = ds @ bs @ rx_bytes (rx h3)"
    by simp
  moreover from ds(4) bs(4) millis_SomeD [OF m]
  have "tx h3 = tx h @ (if at then LARA_R6_COMMAND_AT @ command @ CRLF else command)" by simp
  moreover from ds(5) bs(5) millis_SomeD [OF m]
  have "wire h3 = wire h @ map Rx ds
                @ map Tx (if at then LARA_R6_COMMAND_AT @ command @ CRLF else command)
                @ map Rx bs" by simp
  ultimately show ?thesis using bs(2,3) ds(2,3) x
    by (intro exI [of _ ds] exI [of _ bs] exI [of _ v] exI [of _ s1] exI [of _ h3]) simp
qed

lemma sendCommandWithResponse_run:
  assumes "sendCommandWithResponse command expectedResponse hasDest commandTimeout destSize at h s
             = Some (Inr (res, d, h', s'))"
  shows "\<exists>ds bs v s1. rx_bytes (rx h) = ds @ bs @ rx_bytes (rx h')
           \<and> cmd_run (case expectedResponse of None \<Rightarrow> LARA_R6_RESPONSE_OK | Some r \<Rightarrow> r)
                      (case expectedResponse of None \<Rightarrow> LARA_R6_RESPONSE_ERROR | Some r \<Rightarrow> [])
                      destSize (cmd_init hasDest) bs = Some v
           \<and> res = (if found v then (if error v then LARA_R6_ERROR_ERROR else LARA_R6_ERROR_SUCCESS)
                     else if charsRead v = 0 then LARA_R6_ERROR_NO_RESPONSE
                     else LARA_R6_ERROR_UNEXPECTED_RESPONSE)
           \<and> s1 = s\<lparr>laraResponseBacklog := laraResponseBacklog s @ map stored ds,
                     laraResponseBacklogLength := laraResponseBacklogLength s + length ds\<rparr>
           \<and> (ds \<noteq> [] \<longrightarrow> laraResponseBacklogLength s + length ds \<le> RXBuffSize)
           \<and> pruneBacklog (mirror bs s1) = Inr s'
           \<and> tx h' = tx h @ (if at then LARA_R6_COMMAND_AT @ command @ CRLF else command)
           \<and> wire h' = wire h @ map Rx ds
                @ map Tx (if at then LARA_R6_COMMAND_AT @ command @ CRLF else command)
                @ map Rx bs"
proof -
  from sendCommandWithResponse_end [OF assms] obtain ds bs v s1 h3 where
    a: "rx_bytes (rx h) = ds @ bs @ rx_bytes (rx h3)"
       "cmd_run (case expectedResponse of None \<Rightarrow> LARA_R6_RESPONSE_OK | Some r \<Rightarrow> r)
                      (case expectedResponse of None \<Rightarrow> LARA_R6_RESPONSE_ERROR | Some r \<Rightarrow> [])
                      destSize (cmd_init hasDest) bs = Some v"
       "s1 = s\<lparr>laraResponseBacklog := laraResponseBacklog s @ map stored ds,
                     laraResponseBacklogLength := laraResponseBacklogLength s + length ds\<rparr>"
       "ds \<noteq> [] \<longrightarrow> laraResponseBacklogLength s + length ds \<le> RXBuffSize"
       "tx h3 = tx h @ (if at then LARA_R6_COMMAND_AT @ command @ CRLF else command)"
       "wire h3 = wire h @ map Rx ds
                @ map Tx (if at then LARA_R6_COMMAND_AT @ command @ CRLF else command)
                @ map Rx bs"
    and x: "Inr (res, d, h', s') = (case pruneBacklog (mirror bs s1) of
                     Inl f \<Rightarrow> Inl f
                   | Inr s' \<Rightarrow>
                       Inr (if found v
                            then (if error v then LARA_R6_ERROR_ERROR else LARA_R6_ERROR_SUCCESS)
                            else if charsRead v = 0 then LARA_R6_ERROR_NO_RESPONSE
                            else LARA_R6_ERROR_UNEXPECTED_RESPONSE,
                            responseDest v, h3, s'))"
    by blast
  from x have "h' = h3" "pruneBacklog (mirror bs s1) = Inr s'"
    "res = (if found v then (if error v then LARA_R6_ERROR_ERROR else LARA_R6_ERROR_SUCCESS)
                     else if charsRead v = 0 then LARA_R6_ERROR_NO_RESPONSE
                     else LARA_R6_ERROR_UNEXPECTED_RESPONSE)"
    by (auto split: sum.splits)
  with a show ?thesis by blast
qed

section \<open>Tokens of a concatenation\<close>

lemma split_tok_strtok_all:
  "\<forall>x\<in>set cur. \<not> is_delim x \<Longrightarrow> split_tok cur s = strtok_all (cur @ s)"
proof (induction s arbitrary: cur)
  case Nil
  then show ?case by (cases "cur = []") (simp_all add: strtok_all_single)
next
  case (Cons c cs)
  show ?case
  proof (cases "is_delim c")
    case True
    show ?thesis
    proof (cases "cur = []")
      case True
      with \<open>is_delim c\<close> Cons.IH [of "[]"] show ?thesis by simp
    next
      case False
      with \<open>is_delim c\<close> Cons.IH [of "[]"] Cons.prems show ?thesis
        by (simp add: strtok_all_token)
    qed
  next
    case False
    with Cons.prems have "\<forall>x\<in>set (cur @ [c]). \<not> is_delim x" by simp
    from Cons.IH [OF this] False show ?thesis by simp
  qed
qed

lemma split_tok_append:
  "is_delim d \<Longrightarrow> split_tok cur (a @ d # b) = split_tok cur a @ split_tok [] b"
  by (induction a arbitrary: cur) simp_all

lemma strtok_all_append:
  assumes "a = [] \<or> is_delim (last a)"
  shows "strtok_all (a @ b) = strtok_all a @ strtok_all b"
proof (cases "a = []")
  case True
  then show ?thesis by simp
next
  case False
  with assms obtain a' d where a: "a = a' @ [d]" and d: "is_delim d"
    by (metis append_butlast_last_id)
  have "split_tok [] (a' @ d # b) = split_tok [] a' @ split_tok [] b"
    by (rule split_tok_append [OF d])
  moreover have "split_tok [] (a' @ d # []) = split_tok [] a' @ split_tok [] []"
    by (rule split_tok_append [OF d])
  ultimately show ?thesis
    using split_tok_strtok_all [of "[]"] a by simp
qed

lemma lines_of_append: "lines_of (xs @ ys) = lines_of xs @ lines_of ys"
  by (simp add: lines_of_def)

lemma lines_of_last: "es \<noteq> [] \<Longrightarrow> lines_of es \<noteq> [] \<and> is_delim (last (lines_of es))"
  by (induction es rule: rev_induct) (simp_all add: lines_of_def CRLF_def)

lemma lines_of_sep: "lines_of es = [] \<or> is_delim (last (lines_of es))"
  using lines_of_last [of es] by (cases "es = []") (simp_all add: lines_of_def)

section \<open>The mirror\<close>

lemma mirror_fits:
  "laraResponseBacklogLength s + length bs \<le> RXBuffSize \<Longrightarrow>
   mirror bs s = s\<lparr>laraResponseBacklog := laraResponseBacklog s @ map stored bs,
                   laraResponseBacklogLength := laraResponseBacklogLength s + length bs\<rparr>"
proof (induction bs arbitrary: s)
  case Nil
  then show ?case by simp
next
  case (Cons c cs)
  from Cons.prems have lt: "laraResponseBacklogLength s < RXBuffSize" by simp
  then have bp: "backlog_put c s = s\<lparr>laraResponseBacklog := laraResponseBacklog s @ [stored c],
                   laraResponseBacklogLength := laraResponseBacklogLength s + 1\<rparr>"
    by (simp add: backlog_put_def stored_def)
  from Cons.prems have "laraResponseBacklogLength (backlog_put c s) + length cs \<le> RXBuffSize"
    by (simp add: bp)
  from Cons.IH [OF this] show ?case by (simp add: bp)
qed

lemma backlog_put_full:
  "RXBuffSize \<le> laraResponseBacklogLength s \<Longrightarrow> backlog_put c s = s"
  by (simp add: backlog_put_def)

lemma mirror_full:
  "RXBuffSize \<le> laraResponseBacklogLength s \<Longrightarrow> mirror bs s = s"
  by (induction bs) (simp_all add: backlog_put_full)

lemma backlog_put_bound:
  "laraResponseBacklogLength s \<le> RXBuffSize \<Longrightarrow>
   laraResponseBacklogLength (backlog_put c s) \<le> RXBuffSize"
  by (simp add: backlog_put_def)

lemma mirror_bound:
  "laraResponseBacklogLength s \<le> RXBuffSize \<Longrightarrow>
   laraResponseBacklogLength (mirror bs s) \<le> RXBuffSize"
  by (induction bs arbitrary: s) (simp_all add: backlog_put_bound)

lemma backlog_put_prefix:
  "prefix (laraResponseBacklog s) (laraResponseBacklog (backlog_put c s))"
  by (simp add: backlog_put_def)

lemma mirror_prefix: "prefix (laraResponseBacklog s) (laraResponseBacklog (mirror bs s))"
proof (induction bs arbitrary: s)
  case Nil
  then show ?case by simp
next
  case (Cons c cs)
  from backlog_put_prefix [of s c] Cons.IH [of "backlog_put c s"] show ?case
    by (auto intro: prefix_order.trans)
qed

section \<open>Bytes that begin neither pattern\<close>

lemma match_idle:
  "responseIndex v = 0 \<Longrightarrow> advance r 0 c = 0 \<Longrightarrow> match_response r c v = v"
  "errorIndex v = 0 \<Longrightarrow> advance e 0 c = 0 \<Longrightarrow> match_error e c v = v"
  by (auto simp: match_response_def match_error_def advance_def split: if_splits)

lemma wait_loop_junk:
  assumes "\<not> found v" "responseIndex v = 0" "errorIndex v = 0"
    "\<forall>c\<in>set bs. advance r 0 c = 0 \<and> advance e 0 c = 0"
    "now < timeIn + timeout"
  shows "wait_loop r e timeIn timeout v
           \<lparr>clock = replicate (length bs) now @ ck, rx = map Some bs @ rxr, tx = x, wire = w\<rparr> s
         = wait_loop r e timeIn timeout v
             \<lparr>clock = ck, rx = rxr, tx = x, wire = w @ map Rx bs\<rparr> (mirror bs s)"
  using assms(4)
proof (induction bs arbitrary: s w)
  case Nil
  then show ?case by simp
next
  case (Cons c cs)
  from Cons.prems have idle: "match_error e c (match_response r c v) = v"
    using assms(2,3) by (simp add: match_idle)
  have "wait_loop r e timeIn timeout v
           \<lparr>clock = replicate (length (c # cs)) now @ ck, rx = map Some (c # cs) @ rxr,
            tx = x, wire = w\<rparr> s
      = wait_loop r e timeIn timeout v
           \<lparr>clock = replicate (length cs) now @ ck, rx = map Some cs @ rxr,
            tx = x, wire = w @ [Rx c]\<rparr> (backlog_put c s)"
    using assms(1,5) idle
    by (subst wait_loop.simps) (simp add: millis_def hwAvailable_def readChar_def)
  also have "\<dots> = wait_loop r e timeIn timeout v
                     \<lparr>clock = ck, rx = rxr, tx = x, wire = (w @ [Rx c]) @ map Rx cs\<rparr>
                     (mirror cs (backlog_put c s))"
    using Cons.prems by (intro Cons.IH) simp
  finally show ?case by simp
qed

section \<open>Tags\<close>

lemma sublist_set: "sublist xs ys \<Longrightarrow> set xs \<subseteq> set ys"
  by (auto simp: sublist_def)

lemma actionable_colon: "actionable e \<Longrightarrow> CHR '':'' \<in> set e"
proof -
  assume "actionable e"
  then obtain t where t: "t \<in> set URC_tags" "sublist t e" by (auto simp: actionable_iff)
  from t(1) have "CHR '':'' \<in> set t"
    by (auto simp: URC_tags_def LARA_R6_READ_SOCKET_URC_def
      LARA_R6_READ_UDP_SOCKET_URC_def LARA_R6_LISTEN_SOCKET_URC_def LARA_R6_CLOSE_SOCKET_URC_def
      LARA_R6_GNSS_REQUEST_LOCATION_URC_def LARA_R6_SIM_STATE_URC_def LARA_R6_HTTP_COMMAND_URC_def
      LARA_R6_MQTT_COMMAND_URC_def LARA_R6_PING_COMMAND_URC_def LARA_R6_REGISTRATION_STATUS_URC_def
      LARA_R6_EPSREGISTRATION_STATUS_URC_def LARA_R6_FTP_COMMAND_URC_def)
  with sublist_set [OF t(2)] show ?thesis by auto
qed

lemma begins_with_tag_actionable: "begins_with_tag e \<Longrightarrow> actionable e"
  by (auto simp: begins_with_tag_def actionable_iff list_ex_iff intro: prefix_imp_sublist)

lemma kept_single:
  assumes "e \<noteq> []" "\<forall>c\<in>set e. \<not> is_delim c \<and> c \<noteq> NUL"
  shows "kept e = (if actionable e then [e] else [])"
proof -
  from assms have "c_str e = e" by (intro c_str_id) auto
  moreover from assms have "strtok_all e = [e]" by (intro strtok_all_single) auto
  ultimately show ?thesis by (simp add: kept_def)
qed

lemma map_stored_id: "NUL \<notin> set bs \<Longrightarrow> map stored bs = bs"
  by (induction bs) (auto simp: stored_def)

lemma is_delim_char:
  "is_delim c \<longleftrightarrow> c = CHR 0x0D \<or> c = CHR 0x0A"
  by (simp add: is_delim_def CR_def LF_def)

lemma wait_init_sel:
  "found wait_init = False" "error wait_init = False"
  "responseIndex wait_init = 0" "errorIndex wait_init = 0"
  by (simp_all add: wait_init_def)

section \<open>The loops of bufferedPoll\<close>

lemma poll_read_loop_run:
  "poll_read_loop timeIn buf h = Some (buf', h') \<Longrightarrow>
   \<exists>fresh. buf' = buf @ map stored fresh \<and> rx_bytes (rx h) = fresh @ rx_bytes (rx h')
          \<and> tx h' = tx h \<and> wire h' = wire h @ map Rx fresh"
proof (induction timeIn buf h rule: poll_read_loop.induct)
  case (1 timeIn buf h)
  from "1.prems" obtain now h1 where m: "millis h = Some (now, h1)"
    by (auto simp: poll_read_loop.simps [of timeIn buf h] split: option.splits)
  note mD = millis_SomeD [OF m]
  show ?case
  proof (cases "now - timeIn < rxWindowMillis \<and> length buf < RXBuffSize")
    case False
    with "1.prems" m have "h' = h1" "buf' = buf"
      by (auto simp: poll_read_loop.simps [of timeIn buf h])
    with mD show ?thesis by (intro exI [of _ "[]"]) simp
  next
    case c: True
    obtain avail h2 where a: "hwAvailable h1 = (avail, h2)" by (cases "hwAvailable h1")
    show ?thesis
    proof (cases avail)
      case True
      with a have "hwAvailable h1 = (True, h2)" by simp
      from hwAvailable_TrueD [OF this]
      have h2: "h2 = h1" and "\<exists>c r. rx h1 = Some c # r" by simp_all
      then obtain c rr where rx1: "rx h1 = Some c # rr" by blast
      obtain c' h3 where rc: "readChar h2 = (c', h3)" by (cases "readChar h2")
      from readChar_SomeD [OF _ rc] rx1 h2
      have c': "c' = c" and rx3: "rx h3 = rr" and tx3: "tx h3 = tx h1"
        and w3: "wire h3 = wire h1 @ [Rx c]" by simp_all
      from "1.prems" m c a True rc obtain t' h4 where m3: "millis h3 = Some (t', h4)"
        and run: "poll_read_loop t' (buf @ [if c' = NUL then CHR ''0'' else c']) h4 = Some (buf', h')"
        by (auto simp: poll_read_loop.simps [of timeIn buf h] split: option.splits)
      note m3D = millis_SomeD [OF m3]
      from "1.IH"(1) [OF m refl c a [symmetric] True rc [symmetric] m3 refl run]
      obtain fresh where fr: "buf' = (buf @ [if c' = NUL then CHR ''0'' else c']) @ map stored fresh"
        "rx_bytes (rx h4) = fresh @ rx_bytes (rx h')" "tx h' = tx h4"
        "wire h' = wire h4 @ map Rx fresh"
        by blast
      from mD rx1 have rxh: "rx h = Some c # rr" by simp
      from fr(2) rx3 m3D have "rx_bytes (rx h) = (c # fresh) @ rx_bytes (rx h')"
        by (simp add: rxh)
      moreover from fr(3) m3D tx3 mD have "tx h' = tx h" by simp
      moreover from fr(4) m3D w3 mD have "wire h' = wire h @ map Rx (c # fresh)" by simp
      moreover from fr(1) c' have "buf' = buf @ map stored (c # fresh)"
        by (simp add: stored_def)
      ultimately show ?thesis by blast
    next
      case False
      with a have "hwAvailable h1 = (False, h2)" by simp
      from hwAvailable_FalseD [OF this]
      have fD: "rx_bytes (rx h2) = rx_bytes (rx h1)" "tx h2 = tx h1" "wire h2 = wire h1"
        by simp_all
      from "1.prems" m c a False
      have run: "poll_read_loop timeIn buf h2 = Some (buf', h')"
        by (simp add: poll_read_loop.simps [of timeIn buf h])
      from "1.IH"(2) [OF m refl c a [symmetric] False run]
      obtain fresh where "buf' = buf @ map stored fresh"
        "rx_bytes (rx h2) = fresh @ rx_bytes (rx h')" "tx h' = tx h2"
        "wire h' = wire h2 @ map Rx fresh"
        by blast
      with fD mD show ?thesis by (intro exI [of _ fresh]) simp
    qed
  qed
qed

text \<open>With no byte on the line the read loop ends at the first reading outside the window.\<close>

lemma poll_read_loop_silent:
  "rx_bytes (rx h) = [] \<Longrightarrow> \<exists>t\<in>set (clock h). \<not> t - timeIn < rxWindowMillis \<Longrightarrow>
   \<exists>h'. poll_read_loop timeIn buf h = Some (buf, h') \<and> rx_bytes (rx h') = []
        \<and> tx h' = tx h \<and> wire h' = wire h"
proof (induction timeIn buf h rule: poll_read_loop.induct)
  case (1 timeIn buf h)
  from "1.prems"(2) obtain now ck where ck: "clock h = now # ck" by (cases "clock h") auto
  then have m: "millis h = Some (now, h\<lparr>clock := ck\<rparr>)" by (simp add: millis_def)
  show ?case
  proof (cases "now - timeIn < rxWindowMillis \<and> length buf < RXBuffSize")
    case False
    with m "1.prems"(1) show ?thesis
      by (auto simp: poll_read_loop.simps [of timeIn buf h])
  next
    case c: True
    with "1.prems"(2) ck have later: "\<exists>t\<in>set ck. \<not> t - timeIn < rxWindowMillis" by auto
    obtain avail h2 where a: "hwAvailable (h\<lparr>clock := ck\<rparr>) = (avail, h2)"
      by (cases "hwAvailable (h\<lparr>clock := ck\<rparr>)")
    have "\<not> avail"
    proof
      assume avail
      with a have "hwAvailable (h\<lparr>clock := ck\<rparr>) = (True, h2)" by simp
      from hwAvailable_TrueD [OF this] obtain c rr where "rx h = Some c # rr" by auto
      with "1.prems"(1) show False by simp
    qed
    with a have aF: "hwAvailable (h\<lparr>clock := ck\<rparr>) = (False, h2)" by simp
    from hwAvailable_FalseD [OF aF] "1.prems"(1)
    have fD: "rx_bytes (rx h2) = []" "clock h2 = ck" "tx h2 = tx h" "wire h2 = wire h"
      by simp_all
    from later fD have l2: "\<exists>t\<in>set (clock h2). \<not> t - timeIn < rxWindowMillis" by simp
    from "1.IH"(2) [OF m refl c a [symmetric] \<open>\<not> avail\<close> fD(1) l2] fD
    show ?thesis using m c a \<open>\<not> avail\<close>
      by (simp add: poll_read_loop.simps [of timeIn buf h])
  qed
qed

lemma strtok_r_skip: "\<forall>c\<in>set ds. is_delim c \<Longrightarrow> strtok_r (ds @ str) = strtok_r str"
  by (induction ds) simp_all

text \<open>The lines at the head of the buffer are handed over first, in their order.\<close>

lemma poll_events_prefix:
  assumes "\<forall>e\<in>set K. e \<noteq> [] \<and> (\<forall>c\<in>set e. \<not> is_delim c)"
    and "\<forall>c\<in>set ds. is_delim c"
    and "poll_events proc (ds @ lines_of K @ rest) avail hnd h s = Some (Inr (hnd', events, h', s'))"
  shows "\<exists>more. map fst events = K @ more"
  using assms
proof (induction K arbitrary: ds rest avail hnd h s events)
  case Nil
  then show ?case by simp
next
  case (Cons k K)
  from Cons.prems(1) have k: "k \<noteq> []" "\<forall>c\<in>set k. \<not> is_delim c" by simp_all
  have "strtok_r (ds @ lines_of (k # K) @ rest) = strtok_r (k @ CR # (LF # lines_of K @ rest))"
    using Cons.prems(2) by (simp add: strtok_r_skip lines_of_def CRLF_def)
  also have "\<dots> = Some (k, LF # lines_of K @ rest)"
    using k by (intro strtok_r_token) simp_all
  finally have tok: "strtok_r (ds @ lines_of (k # K) @ rest) = Some (k, LF # lines_of K @ rest)" .
  from Cons.prems(3) obtain lh cl h1 s1 where p: "proc k h s = Some (Inr (lh, cl, h1, s1))"
    by (subst (asm) poll_events.simps) (auto simp: tok split: option.splits sum.splits)
  let ?merge = "laraResponseBacklogLength s1 > 0 \<and> avail + laraResponseBacklogLength s1 < RXBuffSize"
  let ?m = "c_str (take (laraResponseBacklogLength s1) (laraResponseBacklog s1))"
  obtain ev2 where ev: "events = (k, cl) # ev2"
    and rec: "(if ?merge
               then poll_events proc ([LF] @ lines_of K @ (rest @ ?m))
                      (avail + laraResponseBacklogLength s1) (hnd \<or> lh) h1
                      (s1\<lparr>laraResponseBacklog := [], laraResponseBacklogLength := 0\<rparr>)
               else poll_events proc ([LF] @ lines_of K @ rest) avail (hnd \<or> lh) h1 s1)
              = Some (Inr (hnd', ev2, h', s'))"
    using Cons.prems(3)
    by (subst (asm) poll_events.simps)
       (auto simp: tok p split: option.splits sum.splits if_splits)
  from Cons.prems(1) have K: "\<forall>e\<in>set K. e \<noteq> [] \<and> (\<forall>c\<in>set e. \<not> is_delim c)" by simp
  have d: "\<forall>c\<in>set [LF]. is_delim c" by simp
  have "\<exists>more. map fst ev2 = K @ more"
  proof (cases ?merge)
    case True
    with rec have "poll_events proc ([LF] @ lines_of K @ (rest @ ?m))
                      (avail + laraResponseBacklogLength s1) (hnd \<or> lh) h1
                      (s1\<lparr>laraResponseBacklog := [], laraResponseBacklogLength := 0\<rparr>)
                    = Some (Inr (hnd', ev2, h', s'))"
      by simp
    from Cons.IH [OF K d this] show ?thesis .
  next
    case False
    with rec have "poll_events proc ([LF] @ lines_of K @ rest) avail (hnd \<or> lh) h1 s1
                    = Some (Inr (hnd', ev2, h', s'))"
      by auto
    from Cons.IH [OF K d this] show ?thesis .
  qed
  with ev show ?case by auto
qed

lemma mirror_sel:
  "bufferedPollReentrant (mirror bs s) = bufferedPollReentrant s"
  "lastSocketProtocol (mirror bs s) = lastSocketProtocol s"
  "callbacks (mirror bs s) = callbacks s"
  "lastLocalIP (mirror bs s) = lastLocalIP s"
  "lastRemoteIP (mirror bs s) = lastRemoteIP s"
  by (induction bs arbitrary: s) (simp_all add: backlog_put_def)

lemma pruneBacklog_sel:
  assumes "pruneBacklog s = Inr s'"
  shows "bufferedPollReentrant s' = bufferedPollReentrant s"
    "lastSocketProtocol s' = lastSocketProtocol s"
    "callbacks s' = callbacks s"
    "lastLocalIP s' = lastLocalIP s"
    "lastRemoteIP s' = lastRemoteIP s"
    "laraResponseBacklogLength s' = length (laraResponseBacklog s')"
    "NUL \<notin> set (laraResponseBacklog s')"
  using pruneBacklog_InrD(2) [OF assms] NUL_notin_lines_kept [of "laraResponseBacklog s"]
  by simp_all

lemma hwAvailable_rx:
  "hwAvailable h = (a, h') \<Longrightarrow>
   rx_bytes (rx h') = rx_bytes (rx h) \<and> tx h' = tx h \<and> wire h' = wire h \<and> clock h' = clock h"
  by (cases a) (auto dest: hwAvailable_TrueD hwAvailable_FalseD)

lemma stored_delim: "is_delim c \<Longrightarrow> stored c = c"
  by (auto simp: stored_def is_delim_def NUL_def CR_def LF_def)

lemma NUL_notin_map_stored: "NUL \<notin> set (map stored bs)"
  by (induction bs) (auto simp: stored_def NUL_def)

lemma kept_no_NUL: "NUL \<notin> set buf \<Longrightarrow> kept buf = filter actionable (strtok_all buf)"
  by (simp add: kept_def c_str_id)

lemma kept_around_line:
  assumes X: "NUL \<notin> set X" "X = [] \<or> is_delim (last X)"
    and Y: "NUL \<notin> set Y"
    and line: "actionable line" "\<forall>c\<in>set line. \<not> is_delim c \<and> c \<noteq> NUL"
  shows "kept (X @ line @ CRLF @ Y) = kept X @ [line] @ kept Y"
proof -
  from line(1) have ne: "line \<noteq> []" using actionable_colon by fastforce
  from X(1) Y line(2) have "NUL \<notin> set (X @ line @ CRLF @ Y)"
    using NUL_not_delim by (auto simp: CRLF_def)
  then have "kept (X @ line @ CRLF @ Y) = filter actionable (strtok_all (X @ line @ CRLF @ Y))"
    by (rule kept_no_NUL)
  also have "strtok_all (X @ line @ CRLF @ Y) = strtok_all X @ strtok_all (line @ CRLF @ Y)"
    by (rule strtok_all_append [OF X(2)])
  also have "strtok_all (line @ CRLF @ Y) = line # strtok_all Y"
    using ne line(2) by (intro strtok_all_line) auto
  finally show ?thesis
    using line(1) X(1) Y by (simp add: kept_no_NUL)
qed

section \<open>The end of the drain\<close>




section \<open>The bytes of a script\<close>

lemma rx_bytes_map_Some [simp]: "rx_bytes (map Some bs) = bs"
  by (induction bs) simp_all



section \<open>A line joined to what precedes it\<close>

lemma sublist_append_leftI': "sublist t e \<Longrightarrow> sublist t (j @ e)"
  by (auto simp: sublist_def) (metis append.assoc)

lemma actionable_append_left: "actionable e \<Longrightarrow> actionable (j @ e)"
  by (auto simp: actionable_iff intro: sublist_append_leftI')

lemma kept_around_joined_line:
  assumes X: "NUL \<notin> set X" "X = [] \<or> is_delim (last X)"
    and j: "\<forall>c\<in>set j. \<not> is_delim c \<and> c \<noteq> NUL"
    and Y: "NUL \<notin> set Y"
    and line: "actionable line" "\<forall>c\<in>set line. \<not> is_delim c \<and> c \<noteq> NUL"
  shows "kept (X @ j @ line @ CRLF @ Y) = kept X @ [j @ line] @ kept Y"
  using kept_around_line [OF X Y actionable_append_left [OF line(1), of j], of ]
    j line(2) by auto

lemma split_last_token:
  "\<exists>X' j. X = X' @ j \<and> (X' = [] \<or> is_delim (last X')) \<and> (\<forall>c\<in>set j. \<not> is_delim c)"
proof (induction X rule: rev_induct)
  case Nil
  then show ?case by simp
next
  case (snoc x xs)
  show ?case
  proof (cases "is_delim x")
    case True
    then show ?thesis by (intro exI [of _ "xs @ [x]"] exI [of _ "[]"]) simp
  next
    case False
    from snoc obtain X' j where "xs = X' @ j" "X' = [] \<or> is_delim (last X')"
      "\<forall>c\<in>set j. \<not> is_delim c" by blast
    with False show ?thesis by (intro exI [of _ X'] exI [of _ "j @ [x]"]) simp
  qed
qed

section \<open>The wait loops return\<close>





text \<open>Without input the loop ends at the first clock reading that fails its test.\<close>

lemma wait_loop_silent:
  "wait_loop r e timeIn timeout v h s = Some (v', h', s') \<Longrightarrow> \<not> found v \<Longrightarrow>
   rx_bytes (rx h) = [] \<Longrightarrow>
   v' = v \<and> s' = s
   \<and> (\<exists>pre now. clock h = pre @ now # clock h' \<and> \<not> now < timeIn + timeout
         \<and> (\<forall>t\<in>set pre. t < timeIn + timeout))"
proof (induction r e timeIn timeout v h s rule: wait_loop.induct)
  case (1 r e timeIn timeout v h s)
  note nf = "1.prems"(2)
  from "1.prems"(1) nf obtain now h1 where m: "millis h = Some (now, h1)"
    by (auto simp: wait_loop.simps [of r e timeIn timeout v h s] split: option.splits)
  note mD = millis_SomeD [OF m]
  show ?case
  proof (cases "now < timeIn + timeout")
    case False
    with "1.prems"(1) nf m have "v' = v" "h' = h1" "s' = s"
      by (simp_all add: wait_loop.simps [of r e timeIn timeout v h s])
    with mD False show ?thesis by (intro conjI exI [of _ "[]"] exI [of _ now]) simp_all
  next
    case lt: True
    obtain avail h2 where a: "hwAvailable h1 = (avail, h2)" by (cases "hwAvailable h1")
    have "\<not> avail"
    proof
      assume avail
      with a have "hwAvailable h1 = (True, h2)" by simp
      from hwAvailable_TrueD [OF this] obtain c rr where "rx h1 = Some c # rr" by blast
      with mD have "rx h = Some c # rr" by simp
      with "1.prems"(3) show False by simp
    qed
    with a have aF: "hwAvailable h1 = (False, h2)" by simp
    from hwAvailable_FalseD [OF aF] have fD: "rx_bytes (rx h2) = rx_bytes (rx h1)"
      "clock h2 = clock h1" by simp_all
    from "1.prems"(1) nf m lt a \<open>\<not> avail\<close>
    have run: "wait_loop r e timeIn timeout v h2 s = Some (v', h', s')"
      by (simp add: wait_loop.simps [of r e timeIn timeout v h s])
    from fD mD "1.prems"(3) have silent: "rx_bytes (rx h2) = []" by simp
    from "1.IH"(2) [OF nf m refl lt a [symmetric] \<open>\<not> avail\<close> run nf silent]
    obtain pre now' where ih: "v' = v" "s' = s" "clock h2 = pre @ now' # clock h'"
      "\<not> now' < timeIn + timeout" "\<forall>t\<in>set pre. t < timeIn + timeout"
      by blast
    from mD fD ih(3) have "clock h = (now # pre) @ now' # clock h'" by simp
    moreover from lt ih(5) have "\<forall>t\<in>set (now # pre). t < timeIn + timeout" by simp
    ultimately show ?thesis using ih(1,2,4) by blast
  qed
qed

lemma waitForResponse_silent:
  assumes "waitForResponse r e timeout h s = Some (Inr (res, h', s'))" "rx_bytes (rx h) = []"
  shows "res = LARA_R6_ERROR_NO_RESPONSE
       \<and> (\<exists>timeIn pre now. clock h = timeIn # pre @ now # clock h'
             \<and> \<not> now < timeIn + ucast timeout
             \<and> (\<forall>t\<in>set pre. t < timeIn + ucast timeout)
             \<and> (unat timeIn + unat timeout < 2 ^ 32 \<longrightarrow>
                  unat timeIn + unat timeout \<le> unat now))"
proof -
  from assms(1) obtain timeIn h1 v h2 s2 where m: "millis h = Some (timeIn, h1)"
    and w: "wait_loop r e timeIn (ucast timeout) wait_init h1 s = Some (v, h2, s2)"
    and res: "res = (if found v then (if error v then LARA_R6_ERROR_ERROR else LARA_R6_ERROR_SUCCESS)
                     else LARA_R6_ERROR_NO_RESPONSE)"
    and h': "h' = h2"
    by (auto simp: waitForResponse_def split: option.splits sum.splits)
  note mD = millis_SomeD [OF m]
  from mD assms(2) have silent: "rx_bytes (rx h1) = []" by simp
  have nf: "\<not> found wait_init" by (simp add: wait_init_def)
  from wait_loop_silent [OF w nf silent] obtain pre now where
    v: "v = wait_init" and ck: "clock h1 = pre @ now # clock h2"
    and ex: "\<not> now < timeIn + ucast timeout" and before: "\<forall>t\<in>set pre. t < timeIn + ucast timeout"
    by blast
  have nowrap: "unat timeIn + unat timeout \<le> unat now"
    if "unat timeIn + unat timeout < 2 ^ 32"
  proof -
    have "unat (ucast timeout :: u32) = unat timeout"
      by (simp add: unsigned_ucast_eq take_bit_nat_eq_self unsigned_less [of timeout, THEN less_trans])
    with that have "unat (timeIn + ucast timeout) = unat timeIn + unat timeout"
      by (simp add: unat_add_lem [THEN iffD1])
    with ex show ?thesis by (simp add: word_less_nat_alt)
  qed
  from res v nf have "res = LARA_R6_ERROR_NO_RESPONSE" by simp
  moreover from mD ck h' have "clock h = timeIn # pre @ now # clock h'" by simp
  ultimately show ?thesis using ex before nowrap by blast
qed


lemma backlog_ok_put: "backlog_ok s \<Longrightarrow> backlog_ok (backlog_put c s)"
  by (auto simp: backlog_ok_def backlog_put_def NUL_def)

lemma backlog_ok_mirror: "backlog_ok s \<Longrightarrow> backlog_ok (mirror bs s)"
  by (induction bs arbitrary: s) (simp_all add: backlog_ok_put)

lemma backlog_ok_pruneBacklog: "pruneBacklog s = Inr s' \<Longrightarrow> backlog_ok s'"
  by (simp add: backlog_ok_def pruneBacklog_sel)

lemma backlog_ok_sendCommand:
  "backlog_ok s \<Longrightarrow> sendCommand command at h s = Some (h', s') \<Longrightarrow> backlog_ok s'"
  using NUL_notin_map_stored by (auto simp: backlog_ok_def dest!: sendCommand_run)

lemma backlog_ok_waitForResponse:
  "waitForResponse r e timeout h s = Some (Inr (res, h', s')) \<Longrightarrow> backlog_ok s'"
  by (auto simp: backlog_ok_pruneBacklog dest!: waitForResponse_run)

lemma backlog_ok_sendCommandWithResponse:
  "sendCommandWithResponse command expectedResponse hasDest commandTimeout destSize at h s
     = Some (Inr (res, d, h', s')) \<Longrightarrow> backlog_ok s'"
  by (auto simp: backlog_ok_pruneBacklog dest!: sendCommandWithResponse_run)


section \<open>A backlog that the pruner has room for\<close>











section \<open>Two runs\<close>






section \<open>The bytes that wait while the clock is in time\<close>








section \<open>The drain of sendCommand on a steady clock\<close>






section \<open>Claim C2: the results of a transaction\<close>




section \<open>Claim C3: the terminator matcher\<close>



section \<open>Claim C4: the backlog length and the capacity\<close>

text \<open>
  Claim C4 bounds the backlog length by \<open>_RXBuffSize\<close> under the mirror, the drain and the
  rewrite of the pruner. The mirror and the drain keep the bound (\<open>mirror_bound\<close>,
  \<open>drain_loop_run\<close>). The pruner appends CR LF to every line it keeps and checks no
  bound: \<open>waitForResponse\<close> reads 2055 bytes without a line end, a tag followed by
  2049 letters, mirrors them all (the backlog length is 2055, within the capacity) and
  times out; the pruner keeps them as one line, and its \<open>strcat\<close> of CR LF leaves a
  string of 2057 characters in the 2056 bytes of \<open>_pruneBuffer\<close>, which is also the
  value that the backlog length takes: above the capacity of 2056.
\<close>

theorem pruneBacklog_overruns_capacity:
  "waitForResponse LARA_R6_RESPONSE_OK LARA_R6_RESPONSE_ERROR 1000
     \<lparr>clock = 0 # replicate 2055 0 @ [1000],
      rx = map Some (''+CREG:'' @ replicate 2049 (CHR ''x'')), tx = [], wire = []\<rparr> lara_init
   = Some (Inl (Overrun 2057))
   \<and> laraResponseBacklogLength (mirror (''+CREG:'' @ replicate 2049 (CHR ''x'')) lara_init) = 2055
   \<and> RXBuffSize < 2057"
proof -
  define junk where "junk = ''+CREG:'' @ replicate 2049 (CHR ''x'')"
  have len: "length junk = 2055" by (simp add: junk_def)
  have set: "set junk = {CHR ''+'', CHR ''C'', CHR ''R'', CHR ''E'', CHR ''G'', CHR '':'', CHR ''x''}"
    by (auto simp: junk_def)
  have idle: "\<forall>c\<in>set junk. advance LARA_R6_RESPONSE_OK 0 c = 0 \<and> advance LARA_R6_RESPONSE_ERROR 0 c = 0"
    unfolding set
    by (simp add: advance_def LARA_R6_RESPONSE_OK_def LARA_R6_RESPONSE_ERROR_def LF_def)
  have "wait_loop LARA_R6_RESPONSE_OK LARA_R6_RESPONSE_ERROR 0 1000 wait_init
          \<lparr>clock = replicate (length junk) 0 @ [1000], rx = map Some junk @ [], tx = [],
           wire = []\<rparr> lara_init
      = wait_loop LARA_R6_RESPONSE_OK LARA_R6_RESPONSE_ERROR 0 1000 wait_init
          \<lparr>clock = [1000], rx = [], tx = [], wire = [] @ map Rx junk\<rparr> (mirror junk lara_init)"
    by (rule wait_loop_junk [OF _ _ _ idle]) (simp_all add: wait_init_def)
  also have "\<dots> = Some (wait_init, \<lparr>clock = [], rx = [], tx = [], wire = map Rx junk\<rparr>,
                         mirror junk lara_init)"
    by (subst wait_loop.simps) (simp add: wait_init_def millis_def)
  finally have loop: "wait_loop LARA_R6_RESPONSE_OK LARA_R6_RESPONSE_ERROR 0 1000 wait_init
          \<lparr>clock = replicate 2055 0 @ [1000], rx = map Some junk, tx = [], wire = []\<rparr> lara_init
      = Some (wait_init, \<lparr>clock = [], rx = [], tx = [], wire = map Rx junk\<rparr>,
              mirror junk lara_init)"
    unfolding len by simp
  have nonul: "NUL \<notin> set junk" unfolding set by (simp add: NUL_def)
  have "mirror junk lara_init
      = lara_init\<lparr>laraResponseBacklog := laraResponseBacklog lara_init @ map stored junk,
                  laraResponseBacklogLength := laraResponseBacklogLength lara_init + length junk\<rparr>"
    by (rule mirror_fits) (simp add: lara_init_def RXBuffSize_def len)
  then have mir: "mirror junk lara_init
      = lara_init\<lparr>laraResponseBacklog := junk, laraResponseBacklogLength := 2055\<rparr>"
    unfolding map_stored_id [OF nonul] len by (simp add: lara_init_def)
  have "begins_with_tag junk"
    by (simp add: junk_def begins_with_tag_def URC_tags_def LARA_R6_REGISTRATION_STATUS_URC_def)
  then have act: "actionable junk" by (rule begins_with_tag_actionable)
  have "kept junk = (if actionable junk then [junk] else [])"
    using len by (intro kept_single) (auto simp: set NUL_def is_delim_char)
  with act have k: "kept junk = [junk]" by simp
  have c: "c_str junk = junk" by (rule c_str_id [OF nonul])
  have tok: "strtok_r junk = Some (junk, [])"
    using len by (intro strtok_r_last) (auto simp: set is_delim_char)
  have "prune_loop junk [] 0 = Inl (Overrun 2057)"
    by (subst prune_loop.simps)
       (simp add: tok act strcat_def len CRLF_def RXBuffSize_def)
  then have prune: "pruneBacklog (mirror junk lara_init) = Inl (Overrun 2057)"
    unfolding mir by (simp add: pruneBacklog_def buffer_str_def c len RXBuffSize_def)
  have A: "waitForResponse LARA_R6_RESPONSE_OK LARA_R6_RESPONSE_ERROR 1000
     \<lparr>clock = 0 # replicate 2055 0 @ [1000], rx = map Some junk, tx = [], wire = []\<rparr> lara_init
   = Some (Inl (Overrun 2057))"
    by (simp add: waitForResponse_def millis_def loop wait_init_sel prune)
  have B: "laraResponseBacklogLength (mirror junk lara_init) = 2055"
    unfolding mir by simp
  have C: "RXBuffSize < 2057" by (simp add: RXBuffSize_def)
  from A [unfolded junk_def] B [unfolded junk_def] C show ?thesis by (intro conjI)
qed

section \<open>Claim C5: pruning is idempotent\<close>



section \<open>Claim C7: the timeout of waitForResponse\<close>

text \<open>
  Claim C7 has \<open>waitForResponse\<close> without input return \<open>NoResponse\<close> never before the
  timeout has elapsed, for every starting value of the 32-bit millisecond clock. The
  loop tests \<open>(timeIn + timeout) > millis()\<close>, and the sum wraps: entered at clock value
  \<open>0xFFFFFFF6\<close> with a timeout of 1000 ms, the sum is 990, the first test fails with the
  clock still at \<open>0xFFFFFFF6\<close>, and the call returns after 0 ms. (Where the sum does
  not wrap, the call without input returns \<open>NoResponse\<close> at the first clock reading
  that is not below \<open>timeIn + timeout\<close>: \<open>waitForResponse_silent\<close>.)
\<close>

theorem waitForResponse_returns_early:
  "waitForResponse LARA_R6_RESPONSE_OK LARA_R6_RESPONSE_ERROR 1000
     (port [0xFFFFFFF6, 0xFFFFFFF6] []) lara_init
   = Some (Inr (LARA_R6_ERROR_NO_RESPONSE, port [] [], lara_init))"
  by (simp add: waitForResponse_def port_def millis_def wait_loop.simps wait_init_def)

section \<open>Claim C8: what the pruner keeps\<close>

text \<open>
  Claim C8, as stated, has the pruner keep exactly the lines that begin with a tag.
  The pruner tests each line with \<open>strstr\<close>, so a line with a tag anywhere in it is
  kept: the line \<open>x+CREG: 1\<close> does not begin with a tag and survives pruning.
\<close>

theorem pruneBacklog_keeps_inner_tag:
  "\<not> begins_with_tag ''x+CREG: 1''
   \<and> pruneBacklog (with_backlog (''x+CREG: 1'' @ CRLF))
       = Inr (with_backlog (''x+CREG: 1'' @ CRLF))"
proof -
  have a: "actionable ''x+CREG: 1''"
    by (simp add: actionable_def LARA_R6_REGISTRATION_STATUS_URC_def)
  define b where "b = ''x+CREG: 1'' @ CRLF"
  have k: "kept b = [''x+CREG: 1'']"
    unfolding b_def by (subst kept_line) (simp_all add: a is_delim_def CR_def LF_def NUL_def)
  have c: "length (c_str b) < RXBuffSize"
    by (simp add: b_def c_str_def CRLF_def CR_def LF_def NUL_def RXBuffSize_def)
  have "prune_fits (laraResponseBacklog (with_backlog b))"
    using c by (simp add: with_backlog_def prune_fits_def k lines_of_def RXBuffSize_def CRLF_def)
  from pruneBacklog_fits [OF this]
  have "pruneBacklog (with_backlog b) = Inr (with_backlog b)"
    by (simp add: with_backlog_def k lines_of_def) (simp add: b_def)
  then have "pruneBacklog (with_backlog (''x+CREG: 1'' @ CRLF))
       = Inr (with_backlog (''x+CREG: 1'' @ CRLF))"
    unfolding b_def .
  moreover have "\<not> begins_with_tag ''x+CREG: 1''"
    by (simp add: begins_with_tag_def URC_tags_def LARA_R6_READ_SOCKET_URC_def
      LARA_R6_READ_UDP_SOCKET_URC_def LARA_R6_LISTEN_SOCKET_URC_def LARA_R6_CLOSE_SOCKET_URC_def
      LARA_R6_GNSS_REQUEST_LOCATION_URC_def LARA_R6_SIM_STATE_URC_def LARA_R6_HTTP_COMMAND_URC_def
      LARA_R6_MQTT_COMMAND_URC_def LARA_R6_PING_COMMAND_URC_def LARA_R6_REGISTRATION_STATUS_URC_def
      LARA_R6_EPSREGISTRATION_STATUS_URC_def LARA_R6_FTP_COMMAND_URC_def)
  ultimately show ?thesis by simp
qed

text \<open>
  Claim C8, amended. On a backlog that the pruner has room for (the backlog holds a NUL
  within its array, and the lines that are kept, each with its CR LF, fit
  \<open>_pruneBuffer\<close>), the pruner splits the backlog, read as a C string, at every CR and LF
  into its non-empty tokens, keeps a token if and only if one of the twelve tags
  occurs somewhere in it, and writes the kept tokens back in their order, each followed
  by CR LF; the backlog length is the number of bytes written. The other fields of the
  session are unchanged. On a backlog that it has no room for, the pruner reads or writes
  past the end of an array.
\<close>

theorem pruneBacklog_closed_form:
  "(prune_fits (laraResponseBacklog s) \<longrightarrow>
      pruneBacklog s =
        Inr (s\<lparr>laraResponseBacklog :=
                 lines_of (filter (\<lambda>e. \<exists>t\<in>set URC_tags. sublist t e)
                             (strtok_all (c_str (laraResponseBacklog s)))),
               laraResponseBacklogLength :=
                 length (lines_of (filter (\<lambda>e. \<exists>t\<in>set URC_tags. sublist t e)
                                     (strtok_all (c_str (laraResponseBacklog s)))))\<rparr>))
   \<and> (\<not> prune_fits (laraResponseBacklog s) \<longrightarrow> (\<exists>f. pruneBacklog s = Inl f))"
proof -
  have "actionable = (\<lambda>e. \<exists>t\<in>set URC_tags. sublist t e)"
    by (rule ext) (rule actionable_iff)
  then have "kept (laraResponseBacklog s)
      = filter (\<lambda>e. \<exists>t\<in>set URC_tags. sublist t e) (strtok_all (c_str (laraResponseBacklog s)))"
    by (simp add: kept_def)
  with pruneBacklog_fits [of s] pruneBacklog_unfit [of s] show ?thesis by simp
qed

theorem pruneBacklog_closed_form_witness:
  "prune_fits (laraResponseBacklog (with_backlog (''OK'' @ CRLF @ ''x+CREG: 1'' @ CRLF)))
   \<and> pruneBacklog (with_backlog (''OK'' @ CRLF @ ''x+CREG: 1'' @ CRLF))
       = Inr (with_backlog (''x+CREG: 1'' @ CRLF))"
proof -
  define b where "b = ''OK'' @ CRLF @ ''x+CREG: 1'' @ CRLF"
  have k: "kept b = [''x+CREG: 1'']"
    by (simp add: b_def kept_def c_str_def strtok_all.simps strtok_r_def is_delim_char NUL_def
      CRLF_def CR_def LF_def actionable_def LARA_R6_READ_SOCKET_URC_def
      LARA_R6_READ_UDP_SOCKET_URC_def LARA_R6_LISTEN_SOCKET_URC_def LARA_R6_CLOSE_SOCKET_URC_def
      LARA_R6_GNSS_REQUEST_LOCATION_URC_def LARA_R6_SIM_STATE_URC_def LARA_R6_HTTP_COMMAND_URC_def
      LARA_R6_MQTT_COMMAND_URC_def LARA_R6_PING_COMMAND_URC_def LARA_R6_REGISTRATION_STATUS_URC_def
      LARA_R6_EPSREGISTRATION_STATUS_URC_def LARA_R6_FTP_COMMAND_URC_def)
  have c: "length (c_str b) < RXBuffSize"
    by (simp add: b_def c_str_def CRLF_def CR_def LF_def NUL_def RXBuffSize_def)
  have f: "prune_fits (laraResponseBacklog (with_backlog b))"
    using c by (simp add: with_backlog_def prune_fits_def k lines_of_def RXBuffSize_def CRLF_def)
  have "filter (\<lambda>e. \<exists>t\<in>set URC_tags. sublist t e)
          (strtok_all (c_str (laraResponseBacklog (with_backlog b)))) = [''x+CREG: 1'']"
    using k by (simp add: kept_def actionable_iff [symmetric] with_backlog_def)
  with pruneBacklog_closed_form [of "with_backlog b", THEN conjunct1, rule_format, OF f] f
  have "prune_fits (laraResponseBacklog (with_backlog b))
      \<and> pruneBacklog (with_backlog b) = Inr (with_backlog (''x+CREG: 1'' @ CRLF))"
    by (simp add: with_backlog_def lines_of_def CRLF_def)
  then show ?thesis unfolding b_def .
qed

section \<open>Claim C9: sendCommand\<close>




section \<open>Claim C10: the socket number of +UUSORD indexes the socket table\<close>

text \<open>
  Claim C10 says that the socket number of a \<open>+UUSORD\<close> line that parses lies within the
  socket table when the table is read. The block reads the table with no check of the
  number: the line \<open>+UUSORD: 9,5\<close> parses to socket 9, and the read falls outside the
  six elements of \<open>_lastSocketProtocol\<close>; nothing of \<open>processURCEvent\<close> is defined from
  there on.
\<close>

theorem UUSORD_socket_outside_table:
  "processURCEvent_UUSORD lara_init ''+UUSORD: 9,5'' = Some (ReadOutsideSocketTable 9)
   \<and> processURCEvent_blocks lara_init ''+UUSORD: 9,5'' = Inl (OutsideSocketTable 9)"
proof -
  have "processURCEvent_UUSORD lara_init ''+UUSORD: 9,5'' = Some (ReadOutsideSocketTable 9)"
    by (simp add: processURCEvent_UUSORD_def LARA_R6_READ_SOCKET_URC_def sscanf_d_comma_d_def
        scan_int_def is_space_def is_digit_def digit_val_def LARA_R6_NUM_SOCKETS_def
        int32_def strtol_value_def)
  then show ?thesis by (simp add: processURCEvent_blocks_def block_UUSORD_def)
qed

end
